theory Spec2Isabelle
  imports Main "HOL-Library.Word"
begin

unbundle bit_operations_syntax

section \<open>The flat memory bus of the core (source/core/bus.c)\<close>

text \<open>
  \<open>struct core\<close> is declared in core.h; bus.c uses three of its fields: the byte buffer
  \<open>memory\<close>, its size \<open>memory_size\<close> and the flag \<open>big_endian\<close>. The buffer is a list of
  bytes, and the size is kept as a field of its own, as in C, where nothing ties it to
  the allocation. Addresses are \<open>uint32_t\<close>; \<open>memory_size - 1\<close> and \<open>memory_size - 3\<close> are
  unsigned subtractions and wrap around, which word arithmetic does as well.
\<close>

record core =
  memory :: "8 word list"
  memory_size :: "32 word"
  big_endian :: bool

text \<open>
  \<open>panic\<close> (hades.h) prints its message and ends the process: no value comes back from
  it. The model returns the message and the address that was formatted into it.
  \<open>OutOfBounds\<close> is the second way not to return a value: an access that passed the
  check of \<open>memory_size\<close> and still lies outside the allocated buffer, which C leaves
  undefined.
\<close>

datatype error = Panic string "32 word" | OutOfBounds

text \<open>
  \<open>*(uint16_t *)(core->memory + addr)\<close> and its 32-bit sibling access consecutive bytes of
  the buffer, whatever the alignment of \<open>addr\<close>. \<open>fetch\<close> is the bytes read and \<open>store\<close>
  the buffer after writing them, both \<open>None\<close> outside the buffer.
\<close>

definition fetch :: "8 word list \<Rightarrow> nat \<Rightarrow> nat \<Rightarrow> 8 word list option" where
  "fetch m i n = (if i + n \<le> length m then Some (take n (drop i m)) else None)"

fun store :: "8 word list \<Rightarrow> nat \<Rightarrow> 8 word list \<Rightarrow> 8 word list option" where
  "store m i [] = Some m"
| "store m i (b # bs) = (if i < length m then store (m[i := b]) (Suc i) bs else None)"

text \<open>
  \<open>le16toh\<close> of a halfword read through a \<open>uint16_t\<close> pointer is the little-endian value of
  its two bytes on any host, and \<open>be16toh\<close> the big-endian one; \<open>htole16\<close> and \<open>htobe16\<close>
  before a store give the bytes back in that order. The functions below are these
  compositions, from and to the bytes in memory order.
\<close>

fun le16toh :: "8 word list \<Rightarrow> 16 word" where
  "le16toh [b0, b1] = (ucast b0 OR push_bit 8 (ucast b1))"
| "le16toh _ = 0"

fun be16toh :: "8 word list \<Rightarrow> 16 word" where
  "be16toh [b0, b1] = (ucast b1 OR push_bit 8 (ucast b0))"
| "be16toh _ = 0"

fun le32toh :: "8 word list \<Rightarrow> 32 word" where
  "le32toh [b0, b1, b2, b3] =
     (ucast b0 OR push_bit 8 (ucast b1) OR push_bit 16 (ucast b2) OR push_bit 24 (ucast b3))"
| "le32toh _ = 0"

fun be32toh :: "8 word list \<Rightarrow> 32 word" where
  "be32toh [b0, b1, b2, b3] =
     (ucast b3 OR push_bit 8 (ucast b2) OR push_bit 16 (ucast b1) OR push_bit 24 (ucast b0))"
| "be32toh _ = 0"

definition htole16 :: "16 word \<Rightarrow> 8 word list" where
  "htole16 v = [ucast v, ucast (drop_bit 8 v)]"

definition htobe16 :: "16 word \<Rightarrow> 8 word list" where
  "htobe16 v = [ucast (drop_bit 8 v), ucast v]"

definition htole32 :: "32 word \<Rightarrow> 8 word list" where
  "htole32 v = [ucast v, ucast (drop_bit 8 v), ucast (drop_bit 16 v), ucast (drop_bit 24 v)]"

definition htobe32 :: "32 word \<Rightarrow> 8 word list" where
  "htobe32 v = [ucast (drop_bit 24 v), ucast (drop_bit 16 v), ucast (drop_bit 8 v), ucast v]"

definition core_bus_read8 :: "core \<Rightarrow> 32 word \<Rightarrow> error + 8 word" where
  "core_bus_read8 c addr =
     (if addr \<ge> memory_size c then
        Inl (Panic ''Segmentation fault: invalid read of size 8 at address'' addr)
      else if unat addr < length (memory c) then Inr (memory c ! unat addr)
      else Inl OutOfBounds)"

definition core_bus_write8 :: "core \<Rightarrow> 32 word \<Rightarrow> 8 word \<Rightarrow> error + core" where
  "core_bus_write8 c addr val =
     (if addr \<ge> memory_size c then
        Inl (Panic ''Segmentation fault: invalid read of size 8 at address'' addr)
      else if unat addr < length (memory c) then
        Inr (c\<lparr>memory := (memory c)[unat addr := val]\<rparr>)
      else Inl OutOfBounds)"

text \<open>
  The value returned by the two wider reads is \<open>(value >> rotate) | (value << (32 - rotate))\<close>
  on \<open>uint32_t\<close>. With \<open>rotate = 0\<close> the left shift is by 32, beyond what C defines; the
  hardware either gives 0 (as \<open>push_bit\<close> does here) or the value itself, and the
  disjunction with \<open>value >> 0\<close> is \<open>value\<close> in both cases.
\<close>

definition core_bus_read16 :: "core \<Rightarrow> 32 word \<Rightarrow> error + 32 word" where
  "core_bus_read16 c addr0 =
     (let rotate = push_bit 3 (addr0 mod 2);
          addr = addr0 AND 0xFFFFFFFE
      in if addr \<ge> memory_size c - 1 then
           Inl (Panic ''Segmentation fault: invalid read of size 16 at address'' addr)
         else (case fetch (memory c) (unat addr) 2 of
                 None \<Rightarrow> Inl OutOfBounds
               | Some bs \<Rightarrow>
                   (let value = (if big_endian c then ucast (be16toh bs) else ucast (le16toh bs))
                    in Inr (drop_bit (unat rotate) value OR push_bit (unat (32 - rotate)) value))))"

definition core_bus_write16 :: "core \<Rightarrow> 32 word \<Rightarrow> 16 word \<Rightarrow> error + core" where
  "core_bus_write16 c addr val =
     (if addr \<ge> memory_size c - 1 then
        Inl (Panic ''Segmentation fault: invalid write of size 16 at address'' addr)
      else (case store (memory c) (unat addr) (if big_endian c then htobe16 val else htole16 val) of
              Some m \<Rightarrow> Inr (c\<lparr>memory := m\<rparr>)
            | None \<Rightarrow> Inl OutOfBounds))"

definition core_bus_read32 :: "core \<Rightarrow> 32 word \<Rightarrow> error + 32 word" where
  "core_bus_read32 c addr0 =
     (let rotate = push_bit 3 (addr0 mod 4);
          addr = addr0 AND 0xFFFFFFFE
      in if addr \<ge> memory_size c - 3 then
           Inl (Panic ''Segmentation fault: invalid read of size 32 at address'' addr)
         else (case fetch (memory c) (unat addr) 4 of
                 None \<Rightarrow> Inl OutOfBounds
               | Some bs \<Rightarrow>
                   (let value = (if big_endian c then be32toh bs else le32toh bs)
                    in Inr (drop_bit (unat rotate) value OR push_bit (unat (32 - rotate)) value))))"

definition core_bus_write32 :: "core \<Rightarrow> 32 word \<Rightarrow> 32 word \<Rightarrow> error + core" where
  "core_bus_write32 c addr val =
     (if addr \<ge> memory_size c - 3 then
        Inl (Panic ''Segmentation fault: invalid write of size 32 at address'' addr)
      else (case store (memory c) (unat addr) (if big_endian c then htobe32 val else htole32 val) of
              Some m \<Rightarrow> Inr (c\<lparr>memory := m\<rparr>)
            | None \<Rightarrow> Inl OutOfBounds))"

section \<open>The emulator's command loop (source/gba/gba.c)\<close>

subsection \<open>Commands\<close>

text \<open>
  The enumerations and the message structures are declared in gba/gba.h, gba/memory.h and
  gba/io.h, none of them among the sources; their members are taken from their use in
  gba.c and in the front end (gui/game/game.c).

  Modelled from the spec: the members of \<open>enum backup_storage_types\<close> other than
  \<open>BACKUP_AUTO_DETECT\<close>, which gba.c names, follow the spec's list of backup storages
  (none, SRAM, Flash 64 and 128 KiB, EEPROM 512 B and 8 KiB), and \<open>enum
  backup_storage_sources\<close> its "auto-detected" and "manual".
\<close>

datatype keys =
  KEY_A | KEY_B | KEY_L | KEY_R | KEY_UP | KEY_DOWN | KEY_RIGHT | KEY_LEFT | KEY_START | KEY_SELECT

datatype device_state = DEVICE_AUTO_DETECT | DEVICE_ENABLED | DEVICE_DISABLED

datatype backup_storage_types =
  BACKUP_AUTO_DETECT | BACKUP_NONE | BACKUP_EEPROM_4K | BACKUP_EEPROM_64K
| BACKUP_SRAM | BACKUP_FLASH64 | BACKUP_FLASH128

datatype backup_storage_sources = BACKUP_SOURCE_AUTO_DETECT | BACKUP_SOURCE_MANUAL

datatype gba_states = GBA_STATE_PAUSE | GBA_STATE_RUN

text \<open>
  \<open>struct message_data\<close> carries a pointer to a buffer, the buffer's size and a cleanup
  callback that may be null. The buffer and its size are one list of bytes (\<open>size\<close> is its
  length); \<open>cleanup\<close> tells whether the callback is set.
\<close>

record message_data =
  data :: "8 word list"
  cleanup :: bool

datatype message =
  MESSAGE_EXIT
| MESSAGE_LOAD_BIOS message_data
| MESSAGE_LOAD_ROM message_data
| MESSAGE_LOAD_BACKUP message_data
| MESSAGE_BACKUP_TYPE backup_storage_types
| MESSAGE_RESET
| MESSAGE_RUN nat
| MESSAGE_PAUSE
| MESSAGE_KEYINPUT keys bool
| MESSAGE_QUICKLOAD message_data
| MESSAGE_QUICKSAVE message_data
| MESSAGE_AUDIO_RESAMPLE_FREQ nat
| MESSAGE_COLOR_CORRECTION bool
| MESSAGE_RTC device_state

subsection \<open>The state of the emulator\<close>

text \<open>
  The ten one-bit fields of the KEYINPUT register, \<open>gba->io.keyinput\<close>. The fields are
  called \<open>a\<close>, \<open>b\<close>, \<open>l\<close>, \<open>r\<close>, \<open>up\<close>, ... in C; they carry the register's name here.
\<close>

record keyinput =
  keyinput_a :: bool
  keyinput_b :: bool
  keyinput_l :: bool
  keyinput_r :: bool
  keyinput_up :: bool
  keyinput_down :: bool
  keyinput_right :: bool
  keyinput_left :: bool
  keyinput_start :: bool
  keyinput_select :: bool

text \<open>
  \<open>struct gba\<close>, with the fields that gba.c reads or writes. Fields of the nested
  structures carry their path (\<open>gba->memory.bios\<close> is \<open>memory_bios\<close>). Everything else the
  structure holds (scheduler, processor, video, sound, the rest of the memory and of the
  input/output registers) is the component \<open>hw\<close>, of a type left open. The message queue,
  also a field of the structure, is kept beside it, in \<open>run_state\<close> below.
\<close>

record 'h gba =
  started :: bool
  state :: gba_states
  speed :: nat
  color_correction :: bool
  rtc_auto_detect :: bool
  rtc_enabled :: bool
  memory_bios :: "8 word list"
  memory_rom :: "8 word list"
  memory_rom_size :: nat
  memory_backup_storage_data :: "8 word list"
  memory_backup_storage_type :: backup_storage_types
  memory_backup_storage_source :: backup_storage_sources
  io_keyinput :: keyinput
  apu_resample_frequency :: nat
  hw :: 'h

text \<open>
  The functions that gba.c calls and that are defined elsewhere in the emulator, and the
  table \<open>backup_storage_sizes\<close>. They are parameters of the model: each may change the
  whole of the \<open>gba\<close> it is given (also \<open>mem_reset\<close> and \<open>io_init\<close>, which in C get a pointer
  to one nested structure), so what is proved below holds whatever they do. None of them
  gets the message queue, which only \<open>gba_run\<close> and \<open>gba_message_push\<close> use.
\<close>

record 'h externals =
  sched_cleanup :: "'h gba \<Rightarrow> 'h gba"
  sched_init :: "'h gba \<Rightarrow> 'h gba"
  mem_reset :: "'h gba \<Rightarrow> 'h gba"
  io_init :: "'h gba \<Rightarrow> 'h gba"
  ppu_init :: "'h gba \<Rightarrow> 'h gba"
  apu_init :: "'h gba \<Rightarrow> 'h gba"
  core_init :: "'h gba \<Rightarrow> 'h gba"
  gpio_init :: "'h gba \<Rightarrow> 'h gba"
  db_lookup_game :: "'h gba \<Rightarrow> 'h gba"
  mem_backup_storage_detect :: "'h gba \<Rightarrow> 'h gba"
  mem_backup_storage_init :: "'h gba \<Rightarrow> 'h gba"
  io_scan_keypad_irq :: "'h gba \<Rightarrow> 'h gba"
  quickload :: "8 word list \<Rightarrow> 'h gba \<Rightarrow> 'h gba"
  quicksave :: "8 word list \<Rightarrow> 'h gba \<Rightarrow> 'h gba"
  sched_run_for :: "nat \<Rightarrow> 'h gba \<Rightarrow> 'h gba"
  backup_storage_sizes :: "backup_storage_types \<Rightarrow> nat"

text \<open>
  Modelled from the spec: \<open>BIOS_SIZE\<close>, \<open>BIOS_MASK\<close>, \<open>CART_SIZE\<close> and \<open>CYCLES_PER_FRAME\<close>
  are macros of headers that are not among the sources. The spec gives the BIOS as a
  region of 16 KiB at address 0 (the front end, too, accepts a BIOS file of \<open>0x4000\<close> bytes
  only and reads \<open>BIOS_SIZE\<close> bytes of it), so its size is \<open>0x4000\<close> and the mask of its
  addresses \<open>0x3FFF\<close>; the cartridge as up to 32 MiB; and a frame as 280,896 cycles.
\<close>

definition BIOS_SIZE :: nat where
  "BIOS_SIZE = 0x4000"

definition BIOS_MASK :: nat where
  "BIOS_MASK = 0x3FFF"

definition CART_SIZE :: nat where
  "CART_SIZE = 0x2000000"

definition CYCLES_PER_FRAME :: nat where
  "CYCLES_PER_FRAME = 280896"

text \<open>
  \<open>memset (buf, c, n)\<close> and \<open>memcpy (dst, src, n)\<close> on buffers as lists. Both are meant for
  \<open>n\<close> within the buffers, as C requires.
\<close>

definition memset :: "8 word list \<Rightarrow> 8 word \<Rightarrow> nat \<Rightarrow> 8 word list" where
  "memset buf c n = replicate n c @ drop n buf"

definition memcpy :: "8 word list \<Rightarrow> 8 word list \<Rightarrow> nat \<Rightarrow> 8 word list" where
  "memcpy dst src n = take n src @ drop n dst"

text \<open>
  What the emulator does to the world outside \<open>struct gba\<close>, in the order in which it does
  it: locking and unlocking the queue's mutex, calling the cleanup callback of a message
  on its buffer, freeing the queue's buffer, and running the scheduler.
\<close>

datatype effect =
  Mutex_lock
| Mutex_unlock
| Cleanup "8 word list"
| Free_messages
| Sched_run_for nat

definition call_cleanup :: "message_data \<Rightarrow> effect list" where
  "call_cleanup d = (if cleanup d then [Cleanup (data d)] else [])"

subsection \<open>\<open>gba_reset\<close>\<close>

definition gba_reset :: "'h externals \<Rightarrow> 'h gba \<Rightarrow> 'h gba" where
  "gba_reset ext g =
     (let g = sched_cleanup ext g;
          g = sched_init ext g;
          g = mem_reset ext g;
          g = io_init ext g;
          g = ppu_init ext g;
          g = apu_init ext g;
          g = core_init ext g;
          g = gpio_init ext g
      in g\<lparr>started := False\<rparr>)"

subsection \<open>The cases of the \<open>switch\<close> in \<open>gba_run\<close>\<close>

text \<open>
  \<open>process_message\<close> is the body of \<open>switch (message->type)\<close> for one message: \<open>None\<close> when
  the case returns from \<open>gba_run\<close> (\<open>MESSAGE_EXIT\<close>), otherwise the new state and the effects
  of the case. The locals \<open>time_per_frame\<close> and \<open>accumulated_time\<close> that \<open>MESSAGE_RUN\<close> sets
  only pace the loop against the wall clock and are left out.
\<close>

definition set_keyinput :: "keys \<Rightarrow> bool \<Rightarrow> keyinput \<Rightarrow> keyinput" where
  "set_keyinput key v k =
     (case key of
        KEY_A \<Rightarrow> k\<lparr>keyinput_a := v\<rparr>
      | KEY_B \<Rightarrow> k\<lparr>keyinput_b := v\<rparr>
      | KEY_L \<Rightarrow> k\<lparr>keyinput_l := v\<rparr>
      | KEY_R \<Rightarrow> k\<lparr>keyinput_r := v\<rparr>
      | KEY_UP \<Rightarrow> k\<lparr>keyinput_up := v\<rparr>
      | KEY_DOWN \<Rightarrow> k\<lparr>keyinput_down := v\<rparr>
      | KEY_RIGHT \<Rightarrow> k\<lparr>keyinput_right := v\<rparr>
      | KEY_LEFT \<Rightarrow> k\<lparr>keyinput_left := v\<rparr>
      | KEY_START \<Rightarrow> k\<lparr>keyinput_start := v\<rparr>
      | KEY_SELECT \<Rightarrow> k\<lparr>keyinput_select := v\<rparr>)"

fun process_message ::
  "'h externals \<Rightarrow> message \<Rightarrow> 'h gba \<Rightarrow> ('h gba \<times> effect list) option"
where
  "process_message ext MESSAGE_EXIT g = None"
| "process_message ext (MESSAGE_LOAD_BIOS d) g =
     (let bios = memset (memory_bios g) 0 BIOS_MASK;
          bios = memcpy bios (data d) (min (length (data d)) BIOS_MASK)
      in Some (g\<lparr>memory_bios := bios\<rparr>, call_cleanup d))"
| "process_message ext (MESSAGE_LOAD_ROM d) g =
     (let rom = memset (memory_rom g) 0 CART_SIZE;
          rom_size = min (length (data d)) CART_SIZE;
          rom = memcpy rom (data d) rom_size
      in Some (db_lookup_game ext (g\<lparr>memory_rom := rom, memory_rom_size := rom_size\<rparr>),
               call_cleanup d))"
| "process_message ext (MESSAGE_LOAD_BACKUP d) g =
     (let n = backup_storage_sizes ext (memory_backup_storage_type g);
          backup = memset (memory_backup_storage_data g) 0 n;
          backup = memcpy backup (data d) (min (length (data d)) n)
      in Some (g\<lparr>memory_backup_storage_data := backup\<rparr>, call_cleanup d))"
| "process_message ext (MESSAGE_BACKUP_TYPE t) g =
     (if started g then Some (g, [])
      else
        (let g = (if t = BACKUP_AUTO_DETECT then mem_backup_storage_detect ext g
                  else g\<lparr>memory_backup_storage_type := t,
                         memory_backup_storage_source := BACKUP_SOURCE_MANUAL\<rparr>)
         in Some (mem_backup_storage_init ext g, [])))"
| "process_message ext MESSAGE_RESET g = Some (gba_reset ext g, [])"
| "process_message ext (MESSAGE_RUN s) g =
     Some (g\<lparr>started := True, state := GBA_STATE_RUN, speed := s\<rparr>, [])"
| "process_message ext MESSAGE_PAUSE g = Some (g\<lparr>state := GBA_STATE_PAUSE\<rparr>, [])"
| "process_message ext (MESSAGE_KEYINPUT key pressed) g =
     Some (io_scan_keypad_irq ext
             (g\<lparr>io_keyinput := set_keyinput key (\<not> pressed) (io_keyinput g)\<rparr>), [])"
| "process_message ext (MESSAGE_QUICKLOAD d) g = Some (quickload ext (data d) g, call_cleanup d)"
| "process_message ext (MESSAGE_QUICKSAVE d) g = Some (quicksave ext (data d) g, call_cleanup d)"
| "process_message ext (MESSAGE_AUDIO_RESAMPLE_FREQ f) g =
     Some (g\<lparr>apu_resample_frequency := f\<rparr>, [])"
| "process_message ext (MESSAGE_COLOR_CORRECTION b) g = Some (g\<lparr>color_correction := b\<rparr>, [])"
| "process_message ext (MESSAGE_RTC s) g =
     (if started g then Some (g, [])
      else
        (case s of
           DEVICE_AUTO_DETECT \<Rightarrow> Some (g\<lparr>rtc_auto_detect := True, rtc_enabled := False\<rparr>, [])
         | DEVICE_ENABLED \<Rightarrow> Some (g\<lparr>rtc_auto_detect := False, rtc_enabled := True\<rparr>, [])
         | DEVICE_DISABLED \<Rightarrow> Some (g\<lparr>rtc_auto_detect := False, rtc_enabled := False\<rparr>, [])))"

subsection \<open>The message queue and the loop\<close>

text \<open>
  \<open>struct message_queue\<close>: the buffer \<open>messages\<close>, here the list of the records packed in
  it (empty for the null pointer as well), and the number \<open>length\<close> of messages still to
  process, here \<open>queue_length\<close>. The sizes in bytes of the records and of the buffer
  (\<open>message->size\<close>, \<open>allocated_size\<close>) only place the records in the buffer and are not
  modelled. The mutex is seen through the effects \<open>Mutex_lock\<close> and \<open>Mutex_unlock\<close>.
\<close>

record message_queue =
  messages :: "message list"
  queue_length :: nat

record 'h run_state =
  machine :: "'h gba"
  mqueue :: message_queue
  trace :: "effect list"

definition gba_message_push :: "message \<Rightarrow> 'h run_state \<Rightarrow> 'h run_state" where
  "gba_message_push m s =
     s\<lparr>mqueue := \<lparr>messages = messages (mqueue s) @ [m],
                   queue_length = queue_length (mqueue s) + 1\<rparr>,
       trace := trace s @ [Mutex_lock, Mutex_unlock]\<rparr>"

text \<open>
  The inner loop \<open>while (mqueue->length)\<close>. Its second argument is what lies in the buffer
  from the pointer \<open>message\<close> on. A case of the \<open>switch\<close> that ends with \<open>break\<close> is followed
  by the decrement of \<open>length\<close> and the move of the pointer to the next record;
  \<open>MESSAGE_EXIT\<close> unlocks the mutex and returns from \<open>gba_run\<close> before either. \<open>Overrun\<close>
  is the loop reading a record past the end of the buffer, which happens only when
  \<open>length\<close> exceeds the number of records.
\<close>

datatype 'h outcome =
  Continue "'h run_state"
| Returned "'h run_state"
| Overrun

fun drain :: "'h externals \<Rightarrow> message list \<Rightarrow> 'h run_state \<Rightarrow> 'h outcome" where
  "drain ext [] s = (if queue_length (mqueue s) = 0 then Continue s else Overrun)"
| "drain ext (m # rest) s =
     (if queue_length (mqueue s) = 0 then Continue s
      else
        (case process_message ext m (machine s) of
           None \<Rightarrow> Returned (s\<lparr>trace := trace s @ [Mutex_unlock]\<rparr>)
         | Some (g, effects) \<Rightarrow>
             drain ext rest
               (s\<lparr>machine := g,
                  mqueue := (mqueue s)\<lparr>queue_length := queue_length (mqueue s) - 1\<rparr>,
                  trace := trace s @ effects\<rparr>)))"

text \<open>
  One turn of \<open>while (true)\<close> in \<open>gba_run\<close>: lock, drain, free the buffer, unlock, and run
  the scheduler for a frame when the state is \<open>GBA_STATE_RUN\<close>. The pacing that follows
  (\<open>hs_tick_count\<close>, \<open>hs_usleep\<close>) reads the wall clock and changes nothing in \<open>struct gba\<close>;
  it is left out.
\<close>

definition gba_run_iteration :: "'h externals \<Rightarrow> 'h run_state \<Rightarrow> 'h outcome" where
  "gba_run_iteration ext s0 =
     (let s = s0\<lparr>trace := trace s0 @ [Mutex_lock]\<rparr>
      in case drain ext (messages (mqueue s)) s of
           Returned s \<Rightarrow> Returned s
         | Overrun \<Rightarrow> Overrun
         | Continue s \<Rightarrow>
             (let s = s\<lparr>mqueue := (mqueue s)\<lparr>messages := []\<rparr>,
                        trace := trace s @ [Free_messages, Mutex_unlock]\<rparr>
              in if state (machine s) = GBA_STATE_RUN then
                   Continue (s\<lparr>machine := sched_run_for ext CYCLES_PER_FRAME (machine s),
                               trace := trace s @ [Sched_run_for CYCLES_PER_FRAME]\<rparr>)
                 else Continue s))"

text \<open>
  \<open>gba_run\<close> itself. The loop ends only through \<open>MESSAGE_EXIT\<close>; what it meets in the queue
  is what the front end has pushed since the turn before. Its second argument lists
  these pushes, turn by turn: the result is \<open>None\<close> when they are used up and the loop still
  runs.
\<close>

fun gba_run ::
  "'h externals \<Rightarrow> message list list \<Rightarrow> 'h run_state \<Rightarrow> 'h outcome option"
where
  "gba_run ext [] s = None"
| "gba_run ext (pushed # later) s =
     (case gba_run_iteration ext (fold gba_message_push pushed s) of
        Continue s \<Rightarrow> gba_run ext later s
      | Returned s \<Rightarrow> Some (Returned s)
      | Overrun \<Rightarrow> Some Overrun)"

subsection \<open>What the loop is expected to do, and a machine to try it on\<close>

text \<open>
  \<open>execute_in_order\<close> runs the cases of a list of messages one after the other, first
  pushed first, up to the first \<open>MESSAGE_EXIT\<close> if there is one, and collects their
  effects; it is the reading of "drain all commands in FIFO order, execute each" against
  which the loop is compared. \<open>key_bit\<close> is the bit of KEYINPUT that belongs to a key.
  Both are for stating properties; \<open>gba_run\<close> is not defined through them.
\<close>

fun execute_in_order ::
  "'h externals \<Rightarrow> message list \<Rightarrow> 'h gba \<Rightarrow> 'h gba \<times> effect list"
where
  "execute_in_order ext [] g = (g, [])"
| "execute_in_order ext (m # ms) g =
     (case process_message ext m g of
        None \<Rightarrow> (g, [])
      | Some (g', effects) \<Rightarrow>
          (fst (execute_in_order ext ms g'), effects @ snd (execute_in_order ext ms g')))"

definition key_bit :: "keys \<Rightarrow> keyinput \<Rightarrow> bool" where
  "key_bit key k =
     (case key of
        KEY_A \<Rightarrow> keyinput_a k
      | KEY_B \<Rightarrow> keyinput_b k
      | KEY_L \<Rightarrow> keyinput_l k
      | KEY_R \<Rightarrow> keyinput_r k
      | KEY_UP \<Rightarrow> keyinput_up k
      | KEY_DOWN \<Rightarrow> keyinput_down k
      | KEY_RIGHT \<Rightarrow> keyinput_right k
      | KEY_LEFT \<Rightarrow> keyinput_left k
      | KEY_START \<Rightarrow> keyinput_start k
      | KEY_SELECT \<Rightarrow> keyinput_select k)"

text \<open>
  \<open>cleanup_of\<close> is the call of the cleanup callback that belongs to a message: the five
  kinds of message that carry a buffer call it, when it is set, on that buffer.
\<close>

definition cleanup_of :: "message \<Rightarrow> effect list" where
  "cleanup_of m =
     (case m of
        MESSAGE_LOAD_BIOS d \<Rightarrow> call_cleanup d
      | MESSAGE_LOAD_ROM d \<Rightarrow> call_cleanup d
      | MESSAGE_LOAD_BACKUP d \<Rightarrow> call_cleanup d
      | MESSAGE_QUICKLOAD d \<Rightarrow> call_cleanup d
      | MESSAGE_QUICKSAVE d \<Rightarrow> call_cleanup d
      | _ \<Rightarrow> [])"

text \<open>
  A machine for the examples: its \<open>hw\<close> counts the cycles the scheduler has run, the other
  functions defined outside gba.c leave the state as it is, and the table of sizes is the
  spec's. \<open>example_gba\<close> is the structure filled with zeros, as \<open>gba_init\<close> leaves it, with
  all keys released.
\<close>

definition example_externals :: "nat externals" where
  "example_externals =
     \<lparr>sched_cleanup = (\<lambda>g. g), sched_init = (\<lambda>g. g), mem_reset = (\<lambda>g. g),
      io_init = (\<lambda>g. g), ppu_init = (\<lambda>g. g), apu_init = (\<lambda>g. g),
      core_init = (\<lambda>g. g), gpio_init = (\<lambda>g. g), db_lookup_game = (\<lambda>g. g),
      mem_backup_storage_detect = (\<lambda>g. g), mem_backup_storage_init = (\<lambda>g. g),
      io_scan_keypad_irq = (\<lambda>g. g), quickload = (\<lambda>path g. g), quicksave = (\<lambda>path g. g),
      sched_run_for = (\<lambda>n g. g\<lparr>hw := hw g + n\<rparr>),
      backup_storage_sizes =
        (\<lambda>t. case t of
               BACKUP_AUTO_DETECT \<Rightarrow> 0 | BACKUP_NONE \<Rightarrow> 0
             | BACKUP_EEPROM_4K \<Rightarrow> 512 | BACKUP_EEPROM_64K \<Rightarrow> 8192
             | BACKUP_SRAM \<Rightarrow> 32768 | BACKUP_FLASH64 \<Rightarrow> 65536
             | BACKUP_FLASH128 \<Rightarrow> 131072)\<rparr>"

definition example_keyinput :: keyinput where
  "example_keyinput =
     \<lparr>keyinput_a = True, keyinput_b = True, keyinput_l = True, keyinput_r = True,
      keyinput_up = True, keyinput_down = True, keyinput_right = True, keyinput_left = True,
      keyinput_start = True, keyinput_select = True\<rparr>"

definition example_gba :: "nat gba" where
  "example_gba =
     \<lparr>started = False, state = GBA_STATE_PAUSE, speed = 0, color_correction = False,
      rtc_auto_detect = False, rtc_enabled = False,
      memory_bios = replicate BIOS_SIZE 0, memory_rom = replicate CART_SIZE 0,
      memory_rom_size = 0, memory_backup_storage_data = [],
      memory_backup_storage_type = BACKUP_NONE,
      memory_backup_storage_source = BACKUP_SOURCE_AUTO_DETECT,
      io_keyinput = example_keyinput, apu_resample_frequency = 0, hw = 0\<rparr>"

definition example_run_state :: "nat run_state" where
  "example_run_state =
     \<lparr>machine = example_gba, mqueue = \<lparr>messages = [], queue_length = 0\<rparr>, trace = []\<rparr>"

section \<open>Properties of the memory bus\<close>

subsection \<open>Words, alignment and rotation\<close>

lemma rotate_is_word_rotr:
  fixes v :: "32 word"
  assumes "r \<le> 32"
  shows "drop_bit r v OR push_bit (32 - r) v = word_rotr r v"
proof (rule bit_word_eqI)
  fix n assume n: "n < LENGTH(32)"
  show "bit (drop_bit r v OR push_bit (32 - r) v) n = bit (word_rotr r v) n"
  proof (cases "n + r < 32")
    case True
    then have "(n + r) mod 32 = n + r" by simp
    with True n show ?thesis
      by (auto simp: bit_or_iff bit_drop_bit_eq bit_push_bit_iff bit_word_rotr_iff add.commute)
  next
    case False
    with n assms have m: "(n + r) mod 32 = n + r - 32"
      by (simp add: mod_if)
    from False have "\<not> bit v (r + n)"
      using bit_imp_le_length [of v "r + n"] by auto
    with False n assms m show ?thesis
      by (auto simp: bit_or_iff bit_drop_bit_eq bit_push_bit_iff bit_word_rotr_iff)
  qed
qed

lemma mask_fe: "(0xFFFFFFFE :: 32 word) = NOT 1"
  by simp

lemma align2_double: "(a :: 32 word) AND 0xFFFFFFFE = 2 * (a div 2)"
  unfolding mask_fe
proof (rule bit_word_eqI)
  fix n assume n: "n < LENGTH(32)"
  show "bit (a AND NOT 1) n = bit (2 * (a div 2)) n"
  proof (cases n)
    case 0
    then show ?thesis by (simp add: bit_and_iff bit_not_iff bit_double_iff)
  next
    case (Suc m)
    have "bit (a AND NOT 1) (Suc m) = bit a (Suc m)"
      using n Suc by (simp add: bit_and_iff bit_not_iff bit_1_iff)
    moreover have "bit (2 * (a div 2)) (Suc m) = bit (a div 2) m"
      using n Suc by (simp add: bit_double_Suc_iff)
    moreover have "bit a (Suc m) = bit (a div 2) m"
      by (simp add: bit_Suc)
    ultimately show ?thesis using Suc by simp
  qed
qed

lemma unat_align2: "unat ((a :: 32 word) AND 0xFFFFFFFE) = 2 * (unat a div 2)"
proof -
  have "2 * (unat a div 2) \<le> unat a" by simp
  also have "unat a < 2 ^ 32" using unsigned_less [of a] by simp
  finally have "2 * (unat a div 2) < 2 ^ LENGTH(32)" by simp
  then have "unat (2 * (a div 2)) = unat (2 :: 32 word) * unat (a div 2)"
    by (subst unat_mult_lem [symmetric]) (simp add: unat_div)
  then show ?thesis
    unfolding align2_double by (simp add: unat_div)
qed

lemma word_mod2_cases: "(a :: 32 word) mod 2 = 0 \<or> a mod 2 = 1"
proof -
  have "unat (a mod 2) = unat a mod 2" by (simp add: unat_mod)
  then have "unat (a mod 2) = unat (0 :: 32 word) \<or> unat (a mod 2) = unat (1 :: 32 word)" by auto
  then show ?thesis by (simp only: word_unat_eq_iff)
qed

lemma fetch_2: "fetch m i 2 = (if i + 1 < length m then Some [m ! i, m ! (i + 1)] else None)"
proof (cases "i + 1 < length m")
  case True
  then have "drop i m = m ! i # m ! (i + 1) # drop (i + 2) m"
    by (simp add: Cons_nth_drop_Suc)
  with True show ?thesis by (simp add: fetch_def numeral_2_eq_2)
next
  case False
  then show ?thesis by (simp add: fetch_def)
qed

lemma core_bus_read8_Inr:
  "core_bus_read8 c a = Inr b \<longleftrightarrow>
     a < memory_size c \<and> unat a < length (memory c) \<and> memory c ! unat a = b"
  by (auto simp: core_bus_read8_def not_le)

lemma unat_succ_even:
  fixes x :: "32 word"
  assumes "even (unat x)"
  shows "unat (x + 1) = unat x + 1"
proof -
  have "unat x < 2 ^ 32" using unsigned_less [of x] by simp
  moreover have "odd (2 ^ 32 - 1 :: nat)" by simp
  ultimately have "unat x + 1 < 2 ^ LENGTH(32)" using assms
    by (cases "unat x = 2 ^ 32 - 1") auto
  then show ?thesis by (simp add: unat_add_lem [THEN iffD1])
qed

lemma align2_ge:
  fixes addr s :: "32 word"
  assumes "1 \<le> s" "s \<le> addr"
  shows "s - 1 \<le> addr AND 0xFFFFFFFE"
proof -
  have "unat s - 1 \<le> 2 * (unat addr div 2)"
    using assms(2) by (simp add: word_le_nat_alt)
  then show ?thesis
    using assms(1) by (simp add: word_le_nat_alt unat_align2 unat_sub)
qed

subsection \<open>32-bit reads\<close>

text \<open>
  C1. The claim: a 32-bit read at an address \<open>a\<close> that is not word-aligned reads the word at
  \<open>a & ~3\<close> and rotates it right by \<open>(a & 3) * 8\<close> bits. \<open>core_bus_read32\<close> masks the
  address with \<open>0xFFFFFFFE\<close>, the mask of the 16-bit read, so only bit 0 is cleared. On the
  eight bytes \<open>00 11 22 33 44 55 66 77\<close>, little-endian, the read at address 2 takes the
  word at address 2 (\<open>0x55443322\<close>) and rotates it by 16 bits, giving \<open>0x33225544\<close>; the
  word at the aligned address 0 is \<open>0x33221100\<close>, and rotated by 16 bits it would be
  \<open>0x11003322\<close>.
\<close>

theorem core_bus_read32_halfword_offset:
  "core_bus_read32 \<lparr>memory = [0x00, 0x11, 0x22, 0x33, 0x44, 0x55, 0x66, 0x77],
                     memory_size = 8, big_endian = False\<rparr> 2 = Inr 0x33225544
   \<and> core_bus_read32 \<lparr>memory = [0x00, 0x11, 0x22, 0x33, 0x44, 0x55, 0x66, 0x77],
                     memory_size = 8, big_endian = False\<rparr> (2 AND NOT 3) = Inr 0x33221100
   \<and> word_rotr (unat ((2 :: 32 word) AND 3) * 8) (0x33221100 :: 32 word) = 0x11003322"
  by code_simp

subsection \<open>Accesses beyond \<open>memory_size\<close>\<close>

text \<open>
  C2, as stated: a read at an address at or beyond \<open>memory_size\<close> returns an open-bus value
  and a write there is dropped, and neither ends the emulation. There is no open-bus
  value in bus.c: each of the six functions compares the address with the size first and
  calls \<open>panic\<close>. On a memory of four bytes, the byte read and the byte write at address 4
  both end in the panic.
\<close>

theorem out_of_range_read_panics:
  "core_bus_read8 \<lparr>memory = [1, 2, 3, 4], memory_size = 4, big_endian = False\<rparr> 4
     = Inl (Panic ''Segmentation fault: invalid read of size 8 at address'' 4)
   \<and> core_bus_write8 \<lparr>memory = [1, 2, 3, 4], memory_size = 4, big_endian = False\<rparr> 4 0xFF
     = Inl (Panic ''Segmentation fault: invalid read of size 8 at address'' 4)"
  by (simp add: core_bus_read8_def core_bus_write8_def)

text \<open>
  C2, amended: for every core whose \<open>memory_size\<close> is at least 3, so that
  \<open>memory_size - 1\<close> and \<open>memory_size - 3\<close> do not wrap around, and every address at or
  beyond \<open>memory_size\<close>, each of the three reads and the three writes ends in \<open>panic\<close>
  with its segmentation-fault message: no value is returned and no byte is written. The
  address reported by the two wider reads is the one with bit 0 cleared.
\<close>

theorem out_of_range_access_panics:
  assumes "3 \<le> memory_size c" and "memory_size c \<le> addr"
  shows "core_bus_read8 c addr
           = Inl (Panic ''Segmentation fault: invalid read of size 8 at address'' addr)
       \<and> core_bus_write8 c addr v8
           = Inl (Panic ''Segmentation fault: invalid read of size 8 at address'' addr)
       \<and> core_bus_read16 c addr
           = Inl (Panic ''Segmentation fault: invalid read of size 16 at address'' (addr AND 0xFFFFFFFE))
       \<and> core_bus_write16 c addr v16
           = Inl (Panic ''Segmentation fault: invalid write of size 16 at address'' addr)
       \<and> core_bus_read32 c addr
           = Inl (Panic ''Segmentation fault: invalid read of size 32 at address'' (addr AND 0xFFFFFFFE))
       \<and> core_bus_write32 c addr v32
           = Inl (Panic ''Segmentation fault: invalid write of size 32 at address'' addr)"
proof -
  from assms(1) have one: "1 \<le> memory_size c"
    by (simp add: word_le_nat_alt)
  have a1: "memory_size c - 1 \<le> addr AND 0xFFFFFFFE"
    by (rule align2_ge [OF one assms(2)])
  have s31: "memory_size c - 3 \<le> memory_size c - 1"
    using assms(1) by (simp add: word_le_nat_alt unat_sub)
  have s1: "memory_size c - 1 \<le> memory_size c"
    using one by (simp add: word_le_nat_alt unat_sub)
  have a3: "memory_size c - 3 \<le> addr AND 0xFFFFFFFE"
    using s31 a1 by (rule order_trans)
  have w1: "memory_size c - 1 \<le> addr"
    using s1 assms(2) by (rule order_trans)
  have w3: "memory_size c - 3 \<le> addr"
    using s31 w1 by (rule order_trans)
  have r8: "core_bus_read8 c addr
       = Inl (Panic ''Segmentation fault: invalid read of size 8 at address'' addr)"
    using assms(2) by (simp add: core_bus_read8_def)
  have w8: "core_bus_write8 c addr v8
       = Inl (Panic ''Segmentation fault: invalid read of size 8 at address'' addr)"
    using assms(2) by (simp add: core_bus_write8_def)
  have r16: "core_bus_read16 c addr
       = Inl (Panic ''Segmentation fault: invalid read of size 16 at address'' (addr AND 0xFFFFFFFE))"
    using a1 by (simp add: core_bus_read16_def Let_def)
  have w16: "core_bus_write16 c addr v16
       = Inl (Panic ''Segmentation fault: invalid write of size 16 at address'' addr)"
    using w1 by (simp add: core_bus_write16_def)
  have r32: "core_bus_read32 c addr
       = Inl (Panic ''Segmentation fault: invalid read of size 32 at address'' (addr AND 0xFFFFFFFE))"
    using a3 by (simp add: core_bus_read32_def Let_def)
  have w32: "core_bus_write32 c addr v32
       = Inl (Panic ''Segmentation fault: invalid write of size 32 at address'' addr)"
    using w3 by (simp add: core_bus_write32_def)
  from r8 w8 r16 w16 r32 w32 show ?thesis by blast
qed

theorem out_of_range_access_panics_witness:
  "3 \<le> memory_size \<lparr>memory = [1, 2, 3, 4], memory_size = 4, big_endian = False\<rparr>
   \<and> memory_size \<lparr>memory = [1, 2, 3, 4], memory_size = 4, big_endian = False\<rparr> \<le> 5
   \<and> core_bus_read8 \<lparr>memory = [1, 2, 3, 4], memory_size = 4, big_endian = False\<rparr> 5
       = Inl (Panic ''Segmentation fault: invalid read of size 8 at address'' 5)
   \<and> core_bus_write8 \<lparr>memory = [1, 2, 3, 4], memory_size = 4, big_endian = False\<rparr> 5 0xAA
       = Inl (Panic ''Segmentation fault: invalid read of size 8 at address'' 5)
   \<and> core_bus_read16 \<lparr>memory = [1, 2, 3, 4], memory_size = 4, big_endian = False\<rparr> 5
       = Inl (Panic ''Segmentation fault: invalid read of size 16 at address'' 4)
   \<and> core_bus_write16 \<lparr>memory = [1, 2, 3, 4], memory_size = 4, big_endian = False\<rparr> 5 0xBBAA
       = Inl (Panic ''Segmentation fault: invalid write of size 16 at address'' 5)
   \<and> core_bus_read32 \<lparr>memory = [1, 2, 3, 4], memory_size = 4, big_endian = False\<rparr> 5
       = Inl (Panic ''Segmentation fault: invalid read of size 32 at address'' 4)
   \<and> core_bus_write32 \<lparr>memory = [1, 2, 3, 4], memory_size = 4, big_endian = False\<rparr> 5 0xDDCCBBAA
       = Inl (Panic ''Segmentation fault: invalid write of size 32 at address'' 5)"
proof -
  have h1: "3 \<le> memory_size \<lparr>memory = [1, 2, 3, 4], memory_size = 4, big_endian = False\<rparr>"
    by (simp add: word_le_nat_alt)
  have h2: "memory_size \<lparr>memory = [1, 2, 3, 4], memory_size = 4, big_endian = False\<rparr> \<le> 5"
    by (simp add: word_le_nat_alt)
  have m: "(5 :: 32 word) AND 0xFFFFFFFE = 4" by simp
  from out_of_range_access_panics [OF h1 h2, of "0xAA" "0xBBAA" "0xDDCCBBAA"] h1 h2
  show ?thesis unfolding m by blast
qed

subsection \<open>16-bit reads\<close>

text \<open>
  C4. Let \<open>b0\<close> be the byte at the halfword-aligned address \<open>a & ~1\<close> and \<open>b1\<close> the byte
  after it, both inside the memory (for an odd \<open>a\<close> the second one is the byte at \<open>a\<close>
  itself). The stored halfword is \<open>b1:b0\<close> on a little-endian core and \<open>b0:b1\<close> on a
  big-endian one. \<open>core_bus_read16\<close> returns it zero-extended to 32 bits, rotated right by
  8 bits within the 32-bit word when \<open>a\<close> is odd and unrotated when \<open>a\<close> is even.
\<close>

theorem core_bus_read16_rotates:
  assumes lo: "core_bus_read8 c (a AND NOT 1) = Inr b0"
      and hi: "core_bus_read8 c ((a AND NOT 1) + 1) = Inr b1"
  shows "core_bus_read16 c a =
           Inr (word_rotr (if odd a then 8 else 0)
                  (ucast (if big_endian c then word_cat b0 b1 else word_cat b1 b0 :: 16 word)))"
proof -
  define x where "x = a AND 0xFFFFFFFE"
  have x: "a AND NOT 1 = x" unfolding x_def mask_fe ..
  have ev: "even (unat x)" by (simp add: x_def unat_align2)
  have s: "unat (x + 1) = unat x + 1" by (rule unat_succ_even [OF ev])
  from hi [unfolded x] have h1: "x + 1 < memory_size c" and h2: "unat x + 1 < length (memory c)"
    and h3: "memory c ! (unat x + 1) = b1"
    by (simp_all add: core_bus_read8_Inr s)
  from lo [unfolded x] have l3: "memory c ! unat x = b0"
    by (simp add: core_bus_read8_Inr)
  from h1 have "unat x + 1 < unat (memory_size c)"
    by (simp add: word_less_nat_alt s)
  then have chk: "\<not> x \<ge> memory_size c - 1"
    by (simp add: word_le_nat_alt unat_sub)
  have f: "fetch (memory c) (unat x) 2 = Some [b0, b1]"
    using h2 h3 l3 by (simp add: fetch_2)
  have cat: "(ucast p OR push_bit 8 (ucast q) :: 16 word) = word_cat q p" for p q :: "8 word"
    by (simp add: word_cat_eq_push_bit_or or.commute)
  have r: "unat (push_bit 3 (a mod 2)) = (if odd a then 8 else 0)"
    using word_mod2_cases [of a] by (auto simp: odd_iff_mod_2_eq_one)
  have r32: "unat (32 - push_bit 3 (a mod 2)) = 32 - (if odd a then 8 else 0)"
    using word_mod2_cases [of a] by (auto simp: odd_iff_mod_2_eq_one)
  show ?thesis
    unfolding core_bus_read16_def Let_def x_def [symmetric]
    using chk by (simp add: f cat r r32 rotate_is_word_rotr del: push_bit_word_beyond)
qed

theorem core_bus_read16_rotates_witness:
  "core_bus_read8 \<lparr>memory = [0xEF, 0xBE, 0xAD, 0xDE], memory_size = 4, big_endian = False\<rparr>
       (1 AND NOT 1) = Inr 0xEF
   \<and> core_bus_read8 \<lparr>memory = [0xEF, 0xBE, 0xAD, 0xDE], memory_size = 4, big_endian = False\<rparr>
       ((1 AND NOT 1) + 1) = Inr 0xBE
   \<and> core_bus_read16 \<lparr>memory = [0xEF, 0xBE, 0xAD, 0xDE], memory_size = 4, big_endian = False\<rparr>
       1 = Inr 0xEF0000BE"
proof -
  have lo: "core_bus_read8 \<lparr>memory = [0xEF, 0xBE, 0xAD, 0xDE], memory_size = 4, big_endian = False\<rparr>
       (1 AND NOT 1) = Inr 0xEF"
    by (simp add: core_bus_read8_def word_le_nat_alt)
  have hi: "core_bus_read8 \<lparr>memory = [0xEF, 0xBE, 0xAD, 0xDE], memory_size = 4, big_endian = False\<rparr>
       ((1 AND NOT 1) + 1) = Inr 0xBE"
    by (simp add: core_bus_read8_def word_le_nat_alt)
  have v: "word_rotr 8 (ucast (word_cat (0xBE :: 8 word) (0xEF :: 8 word) :: 16 word)) = (0xEF0000BE :: 32 word)"
    by code_simp
  from core_bus_read16_rotates [OF lo hi] have
    "core_bus_read16 \<lparr>memory = [0xEF, 0xBE, 0xAD, 0xDE], memory_size = 4, big_endian = False\<rparr>
       1 = Inr 0xEF0000BE"
    by (simp add: v)
  with lo hi show ?thesis by blast
qed

subsection \<open>Writes at unaligned addresses\<close>

lemma store_in_range:
  "i + length bs \<le> length m \<Longrightarrow>
     \<exists>m'. store m i bs = Some m' \<and> length m' = length m
       \<and> (\<forall>j < length m. m' ! j = (if i \<le> j \<and> j < i + length bs then bs ! (j - i) else m ! j))"
proof (induction bs arbitrary: m i)
  case Nil
  then show ?case by auto
next
  case (Cons b bs)
  from Cons.prems have i: "i < length m" and r: "Suc i + length bs \<le> length (m[i := b])"
    by simp_all
  from Cons.IH [OF r] obtain m' where
    s: "store (m[i := b]) (Suc i) bs = Some m'" and l: "length m' = length m"
    and n: "\<forall>j < length m. m' ! j =
          (if Suc i \<le> j \<and> j < Suc i + length bs then bs ! (j - Suc i) else m[i := b] ! j)"
    by auto
  have "\<forall>j < length m. m' ! j =
          (if i \<le> j \<and> j < i + length (b # bs) then (b # bs) ! (j - i) else m ! j)"
  proof (intro allI impI)
    fix j assume j: "j < length m"
    show "m' ! j = (if i \<le> j \<and> j < i + length (b # bs) then (b # bs) ! (j - i) else m ! j)"
    proof (cases "j = i")
      case True
      with n j i show ?thesis by simp
    next
      case False
      with n j show ?thesis by (auto simp: nth_Cons' Suc_diff_Suc not_less_eq_eq)
    qed
  qed
  with s l i show ?case by simp
qed

lemma store_then_read8:
  assumes wf: "unat (memory_size c) \<le> length (memory c)"
      and r: "unat a + length bs \<le> unat (memory_size c)"
  shows "\<exists>m'. store (memory c) (unat a) bs = Some m'
           \<and> (\<forall>b. core_bus_read8 (c\<lparr>memory := m'\<rparr>) b =
                  (if unat a \<le> unat b \<and> unat b < unat a + length bs
                   then Inr (bs ! (unat b - unat a)) else core_bus_read8 c b))"
proof -
  from wf r have "unat a + length bs \<le> length (memory c)" by simp
  from store_in_range [OF this] obtain m' where
    s: "store (memory c) (unat a) bs = Some m'" and l: "length m' = length (memory c)"
    and n: "\<forall>j < length (memory c). m' ! j =
          (if unat a \<le> j \<and> j < unat a + length bs then bs ! (j - unat a) else memory c ! j)"
    by blast
  have "core_bus_read8 (c\<lparr>memory := m'\<rparr>) b =
          (if unat a \<le> unat b \<and> unat b < unat a + length bs
           then Inr (bs ! (unat b - unat a)) else core_bus_read8 c b)" for b
  proof (cases "memory_size c \<le> b")
    case True
    with r have "\<not> unat b < unat a + length bs" by (simp add: word_le_nat_alt)
    with True show ?thesis by (simp add: core_bus_read8_def)
  next
    case False
    with wf have "unat b < length (memory c)" by (simp add: word_le_nat_alt)
    with False n l show ?thesis by (simp add: core_bus_read8_def)
  qed
  with s show ?thesis by blast
qed

lemma unat_plus_small:
  fixes a s :: "32 word"
  assumes "unat a + k < unat s"
  shows "unat (a + of_nat k) = unat a + k"
proof -
  have "unat s < 2 ^ 32" using unsigned_less [of s] by simp
  with assms have k: "k < 2 ^ LENGTH(32)" and ak: "unat a + k < 2 ^ LENGTH(32)" by simp_all
  from k have "unat (of_nat k :: 32 word) = k" by (simp add: unat_of_nat)
  with ak show ?thesis by (simp add: unat_add_lem [THEN iffD1])
qed

text \<open>
  C3, as stated: a 16-bit write at an unaligned address \<open>a\<close> stores at \<open>a & ~1\<close> and a
  32-bit write at \<open>a & ~3\<close>. Neither \<open>core_bus_write16\<close> nor \<open>core_bus_write32\<close> touches
  the address: the store goes through the pointer \<open>core->memory + addr\<close> as it is. On
  eight zero bytes, little-endian, the halfword \<open>0xBBAA\<close> written at address 1 lands in
  bytes 1 and 2, not in bytes 0 and 1, and the word \<open>0xDDCCBBAA\<close> written at address 2
  lands in bytes 2 to 5, not in bytes 0 to 3.
\<close>

theorem unaligned_write_not_aligned_down:
  "core_bus_write16 \<lparr>memory = [0, 0, 0, 0, 0, 0, 0, 0], memory_size = 8, big_endian = False\<rparr> 1 0xBBAA
     = Inr \<lparr>memory = [0, 0xAA, 0xBB, 0, 0, 0, 0, 0], memory_size = 8, big_endian = False\<rparr>
   \<and> core_bus_write16 \<lparr>memory = [0, 0, 0, 0, 0, 0, 0, 0], memory_size = 8, big_endian = False\<rparr> (1 AND NOT 1) 0xBBAA
     = Inr \<lparr>memory = [0xAA, 0xBB, 0, 0, 0, 0, 0, 0], memory_size = 8, big_endian = False\<rparr>
   \<and> core_bus_write32 \<lparr>memory = [0, 0, 0, 0, 0, 0, 0, 0], memory_size = 8, big_endian = False\<rparr> 2 0xDDCCBBAA
     = Inr \<lparr>memory = [0, 0, 0xAA, 0xBB, 0xCC, 0xDD, 0, 0], memory_size = 8, big_endian = False\<rparr>
   \<and> core_bus_write32 \<lparr>memory = [0, 0, 0, 0, 0, 0, 0, 0], memory_size = 8, big_endian = False\<rparr> (2 AND NOT 3) 0xDDCCBBAA
     = Inr \<lparr>memory = [0xAA, 0xBB, 0xCC, 0xDD, 0, 0, 0, 0], memory_size = 8, big_endian = False\<rparr>"
  by (simp add: core_bus_write16_def core_bus_write32_def htole16_def htole32_def word_le_nat_alt)

text \<open>
  C3, amended: on a core whose buffer holds at least \<open>memory_size\<close> bytes, a 16-bit write
  at any address \<open>a\<close> with \<open>a + 1 < memory_size\<close>, aligned or not, stores the two bytes of
  the value, in the core's byte order, at \<open>a\<close> and \<open>a + 1\<close>, and a 32-bit write with
  \<open>a + 3 < memory_size\<close> stores the four bytes at \<open>a\<close> to \<open>a + 3\<close>. Every other
  address reads as before, and \<open>memory_size\<close> and \<open>big_endian\<close> are unchanged. For an
  aligned \<open>a\<close> this is the behaviour the claim describes.
\<close>

theorem unaligned_writes_in_place:
  assumes wf: "unat (memory_size c) \<le> length (memory c)"
  shows "(unat a + 1 < unat (memory_size c) \<longrightarrow>
            (\<exists>m'. core_bus_write16 c a v = Inr (c\<lparr>memory := m'\<rparr>)
               \<and> [core_bus_read8 (c\<lparr>memory := m'\<rparr>) a, core_bus_read8 (c\<lparr>memory := m'\<rparr>) (a + 1)]
                   = map Inr (if big_endian c then htobe16 v else htole16 v)
               \<and> (\<forall>b. b \<noteq> a \<and> b \<noteq> a + 1 \<longrightarrow>
                      core_bus_read8 (c\<lparr>memory := m'\<rparr>) b = core_bus_read8 c b)))
       \<and> (unat a + 3 < unat (memory_size c) \<longrightarrow>
            (\<exists>m'. core_bus_write32 c a w = Inr (c\<lparr>memory := m'\<rparr>)
               \<and> [core_bus_read8 (c\<lparr>memory := m'\<rparr>) a, core_bus_read8 (c\<lparr>memory := m'\<rparr>) (a + 1),
                   core_bus_read8 (c\<lparr>memory := m'\<rparr>) (a + 2), core_bus_read8 (c\<lparr>memory := m'\<rparr>) (a + 3)]
                   = map Inr (if big_endian c then htobe32 w else htole32 w)
               \<and> (\<forall>b. b \<noteq> a \<and> b \<noteq> a + 1 \<and> b \<noteq> a + 2 \<and> b \<noteq> a + 3 \<longrightarrow>
                      core_bus_read8 (c\<lparr>memory := m'\<rparr>) b = core_bus_read8 c b)))"
proof (intro conjI impI)
  assume r: "unat a + 1 < unat (memory_size c)"
  define bs where "bs = (if big_endian c then htobe16 v else htole16 v)"
  have len: "length bs = 2" by (simp add: bs_def htobe16_def htole16_def)
  have chk: "\<not> memory_size c - 1 \<le> a"
    using r by (simp add: word_le_nat_alt unat_sub)
  have u1: "unat (a + 1) = unat a + 1"
    using unat_plus_small [of a 1 "memory_size c"] r by simp
  from r len have "unat a + length bs \<le> unat (memory_size c)" by simp
  from store_then_read8 [OF wf this] obtain m' where
    s: "store (memory c) (unat a) bs = Some m'"
    and rd: "\<And>b. core_bus_read8 (c\<lparr>memory := m'\<rparr>) b =
                  (if unat a \<le> unat b \<and> unat b < unat a + length bs
                   then Inr (bs ! (unat b - unat a)) else core_bus_read8 c b)"
    by blast
  have w: "core_bus_write16 c a v = Inr (c\<lparr>memory := m'\<rparr>)"
    using chk s by (simp add: core_bus_write16_def bs_def)
  have b01: "[core_bus_read8 (c\<lparr>memory := m'\<rparr>) a, core_bus_read8 (c\<lparr>memory := m'\<rparr>) (a + 1)]
       = map Inr bs"
    using len by (cases bs; cases "tl bs") (auto simp: rd u1)
  have other: "\<forall>b. b \<noteq> a \<and> b \<noteq> a + 1 \<longrightarrow>
                      core_bus_read8 (c\<lparr>memory := m'\<rparr>) b = core_bus_read8 c b"
  proof (intro allI impI)
    fix b assume "b \<noteq> a \<and> b \<noteq> a + 1"
    then have "unat b \<noteq> unat a" "unat b \<noteq> unat a + 1"
      using u1 by (auto simp: word_unat_eq_iff)
    then have neg: "\<not> (unat a \<le> unat b \<and> unat b < unat a + length bs)"
      using len by auto
    show "core_bus_read8 (c\<lparr>memory := m'\<rparr>) b = core_bus_read8 c b"
      by (simp only: rd if_not_P [OF neg])
  qed
  from w b01 other show "\<exists>m'. core_bus_write16 c a v = Inr (c\<lparr>memory := m'\<rparr>)
               \<and> [core_bus_read8 (c\<lparr>memory := m'\<rparr>) a, core_bus_read8 (c\<lparr>memory := m'\<rparr>) (a + 1)]
                   = map Inr (if big_endian c then htobe16 v else htole16 v)
               \<and> (\<forall>b. b \<noteq> a \<and> b \<noteq> a + 1 \<longrightarrow>
                      core_bus_read8 (c\<lparr>memory := m'\<rparr>) b = core_bus_read8 c b)"
    unfolding bs_def by - (rule exI [of _ m'], intro conjI, assumption+)
next
  assume r: "unat a + 3 < unat (memory_size c)"
  define bs where "bs = (if big_endian c then htobe32 w else htole32 w)"
  have len: "length bs = 4" by (simp add: bs_def htobe32_def htole32_def)
  have chk: "\<not> memory_size c - 3 \<le> a"
    using r by (simp add: word_le_nat_alt unat_sub)
  have u1: "unat (a + 1) = unat a + 1"
    using unat_plus_small [of a 1 "memory_size c"] r by simp
  have u2: "unat (a + 2) = unat a + 2"
    using unat_plus_small [of a 2 "memory_size c"] r by simp
  have u3: "unat (a + 3) = unat a + 3"
    using unat_plus_small [of a 3 "memory_size c"] r by simp
  from r len have "unat a + length bs \<le> unat (memory_size c)" by simp
  from store_then_read8 [OF wf this] obtain m' where
    s: "store (memory c) (unat a) bs = Some m'"
    and rd: "\<And>b. core_bus_read8 (c\<lparr>memory := m'\<rparr>) b =
                  (if unat a \<le> unat b \<and> unat b < unat a + length bs
                   then Inr (bs ! (unat b - unat a)) else core_bus_read8 c b)"
    by blast
  have wr: "core_bus_write32 c a w = Inr (c\<lparr>memory := m'\<rparr>)"
    using chk s by (simp add: core_bus_write32_def bs_def)
  have "\<exists>x0 x1 x2 x3. bs = [x0, x1, x2, x3]"
    by (simp add: bs_def htobe32_def htole32_def)
  then obtain x0 x1 x2 x3 where bs4: "bs = [x0, x1, x2, x3]"
    by blast
  have b03: "[core_bus_read8 (c\<lparr>memory := m'\<rparr>) a, core_bus_read8 (c\<lparr>memory := m'\<rparr>) (a + 1),
              core_bus_read8 (c\<lparr>memory := m'\<rparr>) (a + 2), core_bus_read8 (c\<lparr>memory := m'\<rparr>) (a + 3)]
       = map Inr bs"
    by (simp add: rd u1 u2 u3 bs4)
  have other: "\<forall>b. b \<noteq> a \<and> b \<noteq> a + 1 \<and> b \<noteq> a + 2 \<and> b \<noteq> a + 3 \<longrightarrow>
                      core_bus_read8 (c\<lparr>memory := m'\<rparr>) b = core_bus_read8 c b"
  proof (intro allI impI)
    fix b assume "b \<noteq> a \<and> b \<noteq> a + 1 \<and> b \<noteq> a + 2 \<and> b \<noteq> a + 3"
    then have "unat b \<noteq> unat a" "unat b \<noteq> unat a + 1" "unat b \<noteq> unat a + 2" "unat b \<noteq> unat a + 3"
      using u1 u2 u3 by (auto simp: word_unat_eq_iff)
    then have neg: "\<not> (unat a \<le> unat b \<and> unat b < unat a + length bs)"
      using len by auto
    show "core_bus_read8 (c\<lparr>memory := m'\<rparr>) b = core_bus_read8 c b"
      by (simp only: rd if_not_P [OF neg])
  qed
  from wr b03 other show "\<exists>m'. core_bus_write32 c a w = Inr (c\<lparr>memory := m'\<rparr>)
               \<and> [core_bus_read8 (c\<lparr>memory := m'\<rparr>) a, core_bus_read8 (c\<lparr>memory := m'\<rparr>) (a + 1),
                   core_bus_read8 (c\<lparr>memory := m'\<rparr>) (a + 2), core_bus_read8 (c\<lparr>memory := m'\<rparr>) (a + 3)]
                   = map Inr (if big_endian c then htobe32 w else htole32 w)
               \<and> (\<forall>b. b \<noteq> a \<and> b \<noteq> a + 1 \<and> b \<noteq> a + 2 \<and> b \<noteq> a + 3 \<longrightarrow>
                      core_bus_read8 (c\<lparr>memory := m'\<rparr>) b = core_bus_read8 c b)"
    unfolding bs_def by - (rule exI [of _ m'], intro conjI, assumption+)
qed

theorem unaligned_writes_in_place_witness:
  "unat (memory_size \<lparr>memory = [0, 0, 0, 0, 0, 0, 0, 0], memory_size = 8, big_endian = False\<rparr>)
     \<le> length (memory \<lparr>memory = [0, 0, 0, 0, 0, 0, 0, 0], memory_size = 8, big_endian = False\<rparr>)
   \<and> unat (1 :: 32 word) + 1
       < unat (memory_size \<lparr>memory = [0, 0, 0, 0, 0, 0, 0, 0], memory_size = 8, big_endian = False\<rparr>)
   \<and> unat (1 :: 32 word) + 3
       < unat (memory_size \<lparr>memory = [0, 0, 0, 0, 0, 0, 0, 0], memory_size = 8, big_endian = False\<rparr>)
   \<and> (\<exists>m'. core_bus_write16 \<lparr>memory = [0, 0, 0, 0, 0, 0, 0, 0], memory_size = 8, big_endian = False\<rparr>
                1 0xBBAA = Inr \<lparr>memory = m', memory_size = 8, big_endian = False\<rparr>
          \<and> core_bus_read8 \<lparr>memory = m', memory_size = 8, big_endian = False\<rparr> 1 = Inr 0xAA
          \<and> core_bus_read8 \<lparr>memory = m', memory_size = 8, big_endian = False\<rparr> 2 = Inr 0xBB
          \<and> core_bus_read8 \<lparr>memory = m', memory_size = 8, big_endian = False\<rparr> 0 = Inr 0)
   \<and> (\<exists>m'. core_bus_write32 \<lparr>memory = [0, 0, 0, 0, 0, 0, 0, 0], memory_size = 8, big_endian = False\<rparr>
                1 0xDDCCBBAA = Inr \<lparr>memory = m', memory_size = 8, big_endian = False\<rparr>
          \<and> core_bus_read8 \<lparr>memory = m', memory_size = 8, big_endian = False\<rparr> 1 = Inr 0xAA
          \<and> core_bus_read8 \<lparr>memory = m', memory_size = 8, big_endian = False\<rparr> 4 = Inr 0xDD
          \<and> core_bus_read8 \<lparr>memory = m', memory_size = 8, big_endian = False\<rparr> 0 = Inr 0)"
proof -
  let ?c = "\<lparr>memory = [0, 0, 0, 0, 0, 0, 0, 0], memory_size = 8, big_endian = False\<rparr>"
  have wf: "unat (memory_size ?c) \<le> length (memory ?c)" by simp
  have h1: "unat (1 :: 32 word) + 1 < unat (memory_size ?c)" by simp
  have h3: "unat (1 :: 32 word) + 3 < unat (memory_size ?c)" by simp
  have z: "core_bus_read8 ?c 0 = Inr 0" by (simp add: core_bus_read8_def)
  have e16: "htole16 0xBBAA = [0xAA, 0xBB]" by code_simp
  have e32: "htole32 0xDDCCBBAA = [0xAA, 0xBB, 0xCC, 0xDD]" by code_simp
  note t = unaligned_writes_in_place [OF wf, of 1 "0xBBAA" "0xDDCCBBAA"]
  from t [THEN conjunct1, THEN mp, OF h1] obtain m16 where
    "core_bus_write16 ?c 1 0xBBAA = Inr (?c\<lparr>memory := m16\<rparr>)
       \<and> [core_bus_read8 (?c\<lparr>memory := m16\<rparr>) 1, core_bus_read8 (?c\<lparr>memory := m16\<rparr>) (1 + 1)]
              = map Inr (if big_endian ?c then htobe16 0xBBAA else htole16 0xBBAA)
       \<and> (\<forall>b. b \<noteq> 1 \<and> b \<noteq> 1 + 1 \<longrightarrow>
              core_bus_read8 (?c\<lparr>memory := m16\<rparr>) b = core_bus_read8 ?c b)" ..
  then have "core_bus_write16 ?c 1 0xBBAA = Inr \<lparr>memory = m16, memory_size = 8, big_endian = False\<rparr>
          \<and> core_bus_read8 \<lparr>memory = m16, memory_size = 8, big_endian = False\<rparr> 1 = Inr 0xAA
          \<and> core_bus_read8 \<lparr>memory = m16, memory_size = 8, big_endian = False\<rparr> 2 = Inr 0xBB
          \<and> core_bus_read8 \<lparr>memory = m16, memory_size = 8, big_endian = False\<rparr> 0 = Inr 0"
    using z by (simp add: e16)
  then have A: "\<exists>m'. core_bus_write16 ?c 1 0xBBAA = Inr \<lparr>memory = m', memory_size = 8, big_endian = False\<rparr>
          \<and> core_bus_read8 \<lparr>memory = m', memory_size = 8, big_endian = False\<rparr> 1 = Inr 0xAA
          \<and> core_bus_read8 \<lparr>memory = m', memory_size = 8, big_endian = False\<rparr> 2 = Inr 0xBB
          \<and> core_bus_read8 \<lparr>memory = m', memory_size = 8, big_endian = False\<rparr> 0 = Inr 0" ..
  from t [THEN conjunct2, THEN mp, OF h3] obtain m32 where
    "core_bus_write32 ?c 1 0xDDCCBBAA = Inr (?c\<lparr>memory := m32\<rparr>)
       \<and> [core_bus_read8 (?c\<lparr>memory := m32\<rparr>) 1, core_bus_read8 (?c\<lparr>memory := m32\<rparr>) (1 + 1),
             core_bus_read8 (?c\<lparr>memory := m32\<rparr>) (1 + 2), core_bus_read8 (?c\<lparr>memory := m32\<rparr>) (1 + 3)]
              = map Inr (if big_endian ?c then htobe32 0xDDCCBBAA else htole32 0xDDCCBBAA)
       \<and> (\<forall>b. b \<noteq> 1 \<and> b \<noteq> 1 + 1 \<and> b \<noteq> 1 + 2 \<and> b \<noteq> 1 + 3 \<longrightarrow>
              core_bus_read8 (?c\<lparr>memory := m32\<rparr>) b = core_bus_read8 ?c b)" ..
  then have "core_bus_write32 ?c 1 0xDDCCBBAA = Inr \<lparr>memory = m32, memory_size = 8, big_endian = False\<rparr>
          \<and> core_bus_read8 \<lparr>memory = m32, memory_size = 8, big_endian = False\<rparr> 1 = Inr 0xAA
          \<and> core_bus_read8 \<lparr>memory = m32, memory_size = 8, big_endian = False\<rparr> 4 = Inr 0xDD
          \<and> core_bus_read8 \<lparr>memory = m32, memory_size = 8, big_endian = False\<rparr> 0 = Inr 0"
    using z by (simp add: e32)
  then have B: "\<exists>m'. core_bus_write32 ?c 1 0xDDCCBBAA = Inr \<lparr>memory = m', memory_size = 8, big_endian = False\<rparr>
          \<and> core_bus_read8 \<lparr>memory = m', memory_size = 8, big_endian = False\<rparr> 1 = Inr 0xAA
          \<and> core_bus_read8 \<lparr>memory = m', memory_size = 8, big_endian = False\<rparr> 4 = Inr 0xDD
          \<and> core_bus_read8 \<lparr>memory = m', memory_size = 8, big_endian = False\<rparr> 0 = Inr 0" ..
  from wf h1 h3 A B show ?thesis by (intro conjI)
qed

section \<open>Properties of the command loop\<close>

subsection \<open>The cases of the switch and the inner loop\<close>

lemma process_message_None: "process_message ext m g = None \<longleftrightarrow> m = MESSAGE_EXIT"
  by (cases m) (auto simp: Let_def split: device_state.splits)

lemma process_message_effects:
  "process_message ext m g = Some (g', effects) \<Longrightarrow> effects = cleanup_of m"
  by (cases m) (auto simp: Let_def cleanup_of_def split: device_state.splits if_splits)

lemma execute_in_order_Cons:
  "process_message ext m g = Some (g', e) \<Longrightarrow>
     execute_in_order ext (m # ms) g =
       (fst (execute_in_order ext ms g'), e @ snd (execute_in_order ext ms g'))"
  by simp

lemma execute_in_order_exit:
  "MESSAGE_EXIT \<notin> set before \<Longrightarrow>
     execute_in_order ext (before @ MESSAGE_EXIT # after) g = execute_in_order ext before g"
  by (induction before arbitrary: g) (auto split: option.splits)

lemma execute_in_order_effects:
  "MESSAGE_EXIT \<notin> set ms \<Longrightarrow>
     snd (execute_in_order ext ms g) = concat (map cleanup_of ms)"
proof (induction ms arbitrary: g)
  case Nil
  then show ?case by simp
next
  case (Cons m ms)
  from Cons.prems have "m \<noteq> MESSAGE_EXIT" by auto
  then obtain g' e where s: "process_message ext m g = Some (g', e)"
    using process_message_None [of ext m g] by (cases "process_message ext m g") auto
  from process_message_effects [OF s] have "e = cleanup_of m" .
  with Cons s show ?case by simp
qed

lemma drain_all:
  assumes "queue_length (mqueue s) = length ms" and "MESSAGE_EXIT \<notin> set ms"
  shows "drain ext ms s =
           Continue (s\<lparr>machine := fst (execute_in_order ext ms (machine s)),
                       mqueue := (mqueue s)\<lparr>queue_length := 0\<rparr>,
                       trace := trace s @ snd (execute_in_order ext ms (machine s))\<rparr>)"
  using assms
proof (induction ms arbitrary: s)
  case Nil
  then show ?case by simp
next
  case (Cons m ms)
  from Cons.prems have "m \<noteq> MESSAGE_EXIT" by auto
  then obtain g' e where p: "process_message ext m (machine s) = Some (g', e)"
    using process_message_None [of ext m "machine s"]
    by (cases "process_message ext m (machine s)") auto
  let ?s = "s\<lparr>machine := g',
               mqueue := (mqueue s)\<lparr>queue_length := queue_length (mqueue s) - 1\<rparr>,
               trace := trace s @ e\<rparr>"
  have "queue_length (mqueue ?s) = length ms" using Cons.prems by simp
  moreover have "MESSAGE_EXIT \<notin> set ms" using Cons.prems by simp
  ultimately have "drain ext ms ?s =
           Continue (?s\<lparr>machine := fst (execute_in_order ext ms (machine ?s)),
                        mqueue := (mqueue ?s)\<lparr>queue_length := 0\<rparr>,
                        trace := trace ?s @ snd (execute_in_order ext ms (machine ?s))\<rparr>)"
    by (rule Cons.IH)
  with p Cons.prems show ?case
    by simp
qed

lemma drain_exit:
  assumes "queue_length (mqueue s) = length before + Suc k" and "MESSAGE_EXIT \<notin> set before"
  shows "drain ext (before @ MESSAGE_EXIT # after) s =
           Returned (s\<lparr>machine := fst (execute_in_order ext before (machine s)),
                       mqueue := (mqueue s)\<lparr>queue_length := Suc k\<rparr>,
                       trace := trace s @ snd (execute_in_order ext before (machine s))
                                  @ [Mutex_unlock]\<rparr>)"
  using assms
proof (induction before arbitrary: s)
  case Nil
  then show ?case by simp
next
  case (Cons m ms)
  from Cons.prems have "m \<noteq> MESSAGE_EXIT" by auto
  then obtain g' e where p: "process_message ext m (machine s) = Some (g', e)"
    using process_message_None [of ext m "machine s"]
    by (cases "process_message ext m (machine s)") auto
  let ?s = "s\<lparr>machine := g',
               mqueue := (mqueue s)\<lparr>queue_length := queue_length (mqueue s) - 1\<rparr>,
               trace := trace s @ e\<rparr>"
  have "queue_length (mqueue ?s) = length ms + Suc k" using Cons.prems by simp
  moreover have "MESSAGE_EXIT \<notin> set ms" using Cons.prems by simp
  ultimately have "drain ext (ms @ MESSAGE_EXIT # after) ?s =
           Returned (?s\<lparr>machine := fst (execute_in_order ext ms (machine ?s)),
                        mqueue := (mqueue ?s)\<lparr>queue_length := Suc k\<rparr>,
                        trace := trace ?s @ snd (execute_in_order ext ms (machine ?s))
                                   @ [Mutex_unlock]\<rparr>)"
    by (rule Cons.IH)
  with p Cons.prems show ?case
    by simp
qed

subsection \<open>Loading the BIOS\<close>

text \<open>
  On a BIOS buffer and a payload of \<open>BIOS_SIZE\<close> bytes each, \<open>MESSAGE_LOAD_BIOS\<close> clears and
  copies \<open>BIOS_MASK\<close> bytes, one less than the buffer holds: the last byte of the payload is
  not copied, and the last byte of the BIOS stays what it was.
\<close>

lemma load_bios_last_byte_kept:
  assumes "length (data d) = BIOS_SIZE" and "length (memory_bios g) = BIOS_SIZE"
  shows "process_message ext (MESSAGE_LOAD_BIOS d) g =
           Some (g\<lparr>memory_bios := butlast (data d) @ [last (memory_bios g)]\<rparr>, call_cleanup d)"
proof -
  have n: "min (length (data d)) BIOS_MASK = BIOS_MASK"
    using assms(1) by (simp add: BIOS_SIZE_def BIOS_MASK_def)
  have "take BIOS_MASK (data d) = butlast (data d)"
    using assms(1) by (simp add: butlast_conv_take BIOS_SIZE_def BIOS_MASK_def)
  moreover have "drop BIOS_MASK (memory_bios g) = [last (memory_bios g)]"
  proof -
    have "memory_bios g \<noteq> []" using assms(2) by (auto simp: BIOS_SIZE_def)
    then have "memory_bios g = butlast (memory_bios g) @ [last (memory_bios g)]" by simp
    moreover have "length (butlast (memory_bios g)) = BIOS_MASK"
      using assms(2) by (simp add: BIOS_SIZE_def BIOS_MASK_def)
    ultimately show ?thesis by (metis append_eq_conv_conj)
  qed
  ultimately show ?thesis
    by (simp add: n memset_def memcpy_def)
qed

text \<open>
  C5. The claim: after \<open>gba_run\<close> has processed a \<open>LoadBios\<close> command with a payload of
  exactly 16,384 bytes, the BIOS memory holds exactly these bytes, the last one included.
  Run on a zeroed BIOS with a payload of 16,384 bytes \<open>0xFF\<close>, followed by \<open>Exit\<close>, the loop
  leaves 16,383 bytes \<open>0xFF\<close> and a last byte 0 in the BIOS: the case sizes both \<open>memset\<close>
  and \<open>memcpy\<close> with \<open>BIOS_MASK\<close>, where the case for the ROM next to it uses the size
  \<open>CART_SIZE\<close> of its buffer.
\<close>

theorem load_bios_last_byte_not_copied:
  "gba_run ext [[MESSAGE_LOAD_BIOS \<lparr>data = replicate 16384 0xFF, cleanup = True\<rparr>, MESSAGE_EXIT]]
     \<lparr>machine = g\<lparr>memory_bios := replicate 16384 0\<rparr>,
      mqueue = \<lparr>messages = [], queue_length = 0\<rparr>, trace = []\<rparr>
   = Some (Returned
       \<lparr>machine = g\<lparr>memory_bios := replicate 16383 0xFF @ [0]\<rparr>,
        mqueue = \<lparr>messages = [MESSAGE_LOAD_BIOS \<lparr>data = replicate 16384 0xFF, cleanup = True\<rparr>,
                               MESSAGE_EXIT],
                  queue_length = 1\<rparr>,
        trace = [Mutex_lock, Mutex_unlock, Mutex_lock, Mutex_unlock,
                 Mutex_lock, Cleanup (replicate 16384 0xFF), Mutex_unlock]\<rparr>)
   \<and> replicate 16383 0xFF @ [0] \<noteq> replicate 16384 (0xFF :: 8 word)"
proof -
  have "last (replicate 16383 0xFF @ [0 :: 8 word]) \<noteq> last (replicate 16384 0xFF)"
    by simp
  then have ne: "replicate 16383 0xFF @ [0] \<noteq> replicate 16384 (0xFF :: 8 word)"
    by metis
  have run: "gba_run ext [[MESSAGE_LOAD_BIOS \<lparr>data = replicate 16384 0xFF, cleanup = True\<rparr>, MESSAGE_EXIT]]
     \<lparr>machine = g\<lparr>memory_bios := replicate 16384 0\<rparr>,
      mqueue = \<lparr>messages = [], queue_length = 0\<rparr>, trace = []\<rparr>
   = Some (Returned
       \<lparr>machine = g\<lparr>memory_bios := replicate 16383 0xFF @ [0]\<rparr>,
        mqueue = \<lparr>messages = [MESSAGE_LOAD_BIOS \<lparr>data = replicate 16384 0xFF, cleanup = True\<rparr>,
                               MESSAGE_EXIT],
                  queue_length = 1\<rparr>,
        trace = [Mutex_lock, Mutex_unlock, Mutex_lock, Mutex_unlock,
                 Mutex_lock, Cleanup (replicate 16384 0xFF), Mutex_unlock]\<rparr>)"
    by (simp add: gba_run_iteration_def gba_message_push_def memset_def memcpy_def
          BIOS_MASK_def call_cleanup_def)
  from run ne show ?thesis by (rule conjI)
qed

subsection \<open>Commands ignored once emulation has started\<close>

text \<open>
  C6. When \<open>started\<close> is set, the cases for \<open>BackupType\<close> and \<open>Rtc\<close> leave the whole of the
  emulator's state as it is and have no effect outside it: \<open>backup_storage_type\<close>,
  \<open>backup_storage_source\<close>, \<open>rtc_enabled\<close>, \<open>rtc_auto_detect\<close> and everything else keep
  their values. In the loop such a message is consumed like any other (the count of
  messages to process goes down by one) and nothing else changes.
\<close>

theorem backup_type_and_rtc_ignored_once_started:
  assumes "started (machine s)"
  shows "process_message ext (MESSAGE_BACKUP_TYPE t) (machine s) = Some (machine s, [])
       \<and> process_message ext (MESSAGE_RTC d) (machine s) = Some (machine s, [])
       \<and> (queue_length (mqueue s) \<noteq> 0 \<longrightarrow>
              drain ext (MESSAGE_BACKUP_TYPE t # rest) s =
                drain ext rest
                  (s\<lparr>mqueue := (mqueue s)\<lparr>queue_length := queue_length (mqueue s) - 1\<rparr>\<rparr>)
            \<and> drain ext (MESSAGE_RTC d # rest) s =
                drain ext rest
                  (s\<lparr>mqueue := (mqueue s)\<lparr>queue_length := queue_length (mqueue s) - 1\<rparr>\<rparr>))"
  using assms by simp

theorem backup_type_and_rtc_ignored_once_started_witness:
  "started (machine (example_run_state
      \<lparr>machine := example_gba\<lparr>started := True\<rparr>,
       mqueue := \<lparr>messages = [MESSAGE_BACKUP_TYPE BACKUP_SRAM], queue_length = 1\<rparr>\<rparr>))
   \<and> process_message example_externals (MESSAGE_BACKUP_TYPE BACKUP_SRAM)
        (example_gba\<lparr>started := True\<rparr>) = Some (example_gba\<lparr>started := True\<rparr>, [])
   \<and> process_message example_externals (MESSAGE_RTC DEVICE_ENABLED)
        (example_gba\<lparr>started := True\<rparr>) = Some (example_gba\<lparr>started := True\<rparr>, [])
   \<and> drain example_externals [MESSAGE_BACKUP_TYPE BACKUP_SRAM]
        (example_run_state
           \<lparr>machine := example_gba\<lparr>started := True\<rparr>,
            mqueue := \<lparr>messages = [MESSAGE_BACKUP_TYPE BACKUP_SRAM], queue_length = 1\<rparr>\<rparr>)
       = Continue (example_run_state
           \<lparr>machine := example_gba\<lparr>started := True\<rparr>,
            mqueue := \<lparr>messages = [MESSAGE_BACKUP_TYPE BACKUP_SRAM], queue_length = 0\<rparr>\<rparr>)"
proof -
  let ?s = "example_run_state
      \<lparr>machine := example_gba\<lparr>started := True\<rparr>,
       mqueue := \<lparr>messages = [MESSAGE_BACKUP_TYPE BACKUP_SRAM], queue_length = 1\<rparr>\<rparr>"
  have h: "started (machine ?s)" by simp
  have q: "queue_length (mqueue ?s) \<noteq> 0" by simp
  note t = backup_type_and_rtc_ignored_once_started
             [OF h, of example_externals BACKUP_SRAM DEVICE_ENABLED "[]"]
  from t have a: "process_message example_externals (MESSAGE_BACKUP_TYPE BACKUP_SRAM)
        (example_gba\<lparr>started := True\<rparr>) = Some (example_gba\<lparr>started := True\<rparr>, [])"
    by simp
  from t have b: "process_message example_externals (MESSAGE_RTC DEVICE_ENABLED)
        (example_gba\<lparr>started := True\<rparr>) = Some (example_gba\<lparr>started := True\<rparr>, [])"
    by simp
  from t q have "drain example_externals [MESSAGE_BACKUP_TYPE BACKUP_SRAM] ?s =
       drain example_externals []
         (?s\<lparr>mqueue := (mqueue ?s)\<lparr>queue_length := queue_length (mqueue ?s) - 1\<rparr>\<rparr>)"
    by blast
  then have c: "drain example_externals [MESSAGE_BACKUP_TYPE BACKUP_SRAM] ?s
       = Continue (example_run_state
           \<lparr>machine := example_gba\<lparr>started := True\<rparr>,
            mqueue := \<lparr>messages = [MESSAGE_BACKUP_TYPE BACKUP_SRAM], queue_length = 0\<rparr>\<rparr>)"
    by simp
  from h a b c show ?thesis by (intro conjI)
qed

subsection \<open>One turn of the loop\<close>

text \<open>
  A turn that starts with as many messages to process as the buffer holds executes them
  first to last and then frees the buffer, unlocks and, in the state \<open>GBA_STATE_RUN\<close>,
  runs the scheduler for a frame; when it meets \<open>MESSAGE_EXIT\<close> it has executed the
  messages before it and returns. \<open>gba_message_push\<close> appends to the buffer and counts, so
  pushes keep the buffer and the count in step.
\<close>

lemma turn_from_invariant:
  assumes inv: "queue_length (mqueue s) = length (messages (mqueue s))"
  shows "let g = fst (execute_in_order ext (messages (mqueue s)) (machine s));
             effects = snd (execute_in_order ext (messages (mqueue s)) (machine s))
         in (MESSAGE_EXIT \<notin> set (messages (mqueue s)) \<longrightarrow>
               gba_run_iteration ext s =
                 Continue
                   \<lparr>machine = (if state g = GBA_STATE_RUN
                               then sched_run_for ext CYCLES_PER_FRAME g else g),
                    mqueue = \<lparr>messages = [], queue_length = 0\<rparr>,
                    trace = trace s @ [Mutex_lock] @ effects @ [Free_messages, Mutex_unlock]
                              @ (if state g = GBA_STATE_RUN
                                 then [Sched_run_for CYCLES_PER_FRAME] else [])\<rparr>)
          \<and> (MESSAGE_EXIT \<in> set (messages (mqueue s)) \<longrightarrow>
               (\<exists>s'. gba_run_iteration ext s = Returned s' \<and> machine s' = g
                   \<and> trace s' = trace s @ [Mutex_lock] @ effects @ [Mutex_unlock]))"
proof -
  let ?ms = "messages (mqueue s)"
  let ?s = "s\<lparr>trace := trace s @ [Mutex_lock]\<rparr>"
  have q: "queue_length (mqueue ?s) = length ?ms" using inv by simp
  have a: "gba_run_iteration ext s =
             Continue
               \<lparr>machine = (if state (fst (execute_in_order ext ?ms (machine s))) = GBA_STATE_RUN
                           then sched_run_for ext CYCLES_PER_FRAME
                                  (fst (execute_in_order ext ?ms (machine s)))
                           else fst (execute_in_order ext ?ms (machine s))),
                mqueue = \<lparr>messages = [], queue_length = 0\<rparr>,
                trace = trace s @ [Mutex_lock] @ snd (execute_in_order ext ?ms (machine s))
                          @ [Free_messages, Mutex_unlock]
                          @ (if state (fst (execute_in_order ext ?ms (machine s))) = GBA_STATE_RUN
                             then [Sched_run_for CYCLES_PER_FRAME] else [])\<rparr>"
    if "MESSAGE_EXIT \<notin> set ?ms"
    using drain_all [OF q, of ext] that
    by (simp add: gba_run_iteration_def Let_def)
  have b: "\<exists>s'. gba_run_iteration ext s = Returned s'
             \<and> machine s' = fst (execute_in_order ext ?ms (machine s))
             \<and> trace s' = trace s @ [Mutex_lock] @ snd (execute_in_order ext ?ms (machine s))
                            @ [Mutex_unlock]"
    if "MESSAGE_EXIT \<in> set ?ms"
  proof -
    from split_list_first [OF that] obtain before after where
      ms: "?ms = before @ MESSAGE_EXIT # after" and nb: "MESSAGE_EXIT \<notin> set before"
      by blast
    have "queue_length (mqueue ?s) = length before + Suc (length after)"
      using q ms by simp
    from drain_exit [OF this nb, of ext after] ms
    show ?thesis
      by (simp add: gba_run_iteration_def Let_def execute_in_order_exit [OF nb])
  qed
  from a b show ?thesis by (simp add: Let_def)
qed

lemma fold_gba_message_push:
  "fold gba_message_push pushed s =
     s\<lparr>mqueue := \<lparr>messages = messages (mqueue s) @ pushed,
                   queue_length = queue_length (mqueue s) + length pushed\<rparr>,
       trace := trace s @ concat (replicate (length pushed) [Mutex_lock, Mutex_unlock])\<rparr>"
proof (induction pushed arbitrary: s)
  case Nil
  then show ?case by simp
next
  case (Cons m ms)
  have "concat (replicate (length ms) [Mutex_lock, Mutex_unlock]) @ [Mutex_lock, Mutex_unlock]
          = [Mutex_lock, Mutex_unlock] @ concat (replicate (length ms) [Mutex_lock, Mutex_unlock])"
    by (induction ms) simp_all
  then have "(gba_message_push m s)
         \<lparr>mqueue := \<lparr>messages = messages (mqueue (gba_message_push m s)) @ ms,
                       queue_length = queue_length (mqueue (gba_message_push m s)) + length ms\<rparr>,
           trace := trace (gba_message_push m s)
                      @ concat (replicate (length ms) [Mutex_lock, Mutex_unlock])\<rparr>
       = s\<lparr>mqueue := \<lparr>messages = messages (mqueue s) @ m # ms,
                       queue_length = queue_length (mqueue s) + length (m # ms)\<rparr>,
           trace := trace s @ concat (replicate (length (m # ms)) [Mutex_lock, Mutex_unlock])\<rparr>"
    by (simp add: gba_message_push_def)
  moreover have "fold gba_message_push (m # ms) s = fold gba_message_push ms (gba_message_push m s)"
    by simp
  ultimately show ?case
    by (simp only: Cons.IH)
qed

text \<open>
  C7, as stated: in every iteration of the loop all queued commands are drained and
  executed in the order of the pushes before any emulation, and the scheduler then runs
  for \<open>CYCLES_PER_FRAME\<close> cycles if and only if the state is \<open>Run\<close>. The iteration that
  meets an \<open>Exit\<close> is not like that. After the pushes of \<open>Run\<close>, \<open>Exit\<close> and \<open>Pause\<close>,
  \<open>gba_run\<close> executes \<open>Run\<close> and returns at \<open>Exit\<close>: the state is \<open>GBA_STATE_RUN\<close> and the
  scheduler has not run, and \<open>Pause\<close> is still in the queue, not executed.
\<close>

theorem exit_turn_runs_no_frame:
  "gba_run example_externals [[MESSAGE_RUN 1, MESSAGE_EXIT, MESSAGE_PAUSE]] example_run_state
     = Some (Returned
         \<lparr>machine = example_gba\<lparr>started := True, state := GBA_STATE_RUN, speed := 1\<rparr>,
          mqueue = \<lparr>messages = [MESSAGE_RUN 1, MESSAGE_EXIT, MESSAGE_PAUSE], queue_length = 2\<rparr>,
          trace = [Mutex_lock, Mutex_unlock, Mutex_lock, Mutex_unlock, Mutex_lock, Mutex_unlock,
                   Mutex_lock, Mutex_unlock]\<rparr>)"
  by (simp add: gba_run_iteration_def gba_message_push_def example_run_state_def)

text \<open>
  C7, amended: take any state of the loop in which the queue counts as many messages as
  its buffer holds (the empty queue of the start and of the end of every completed
  iteration is one), and let the front end push any commands. If no \<open>Exit\<close> is then in
  the queue, the next iteration executes all queued commands, first pushed first, before
  any emulation, frees the buffer, and then runs the scheduler, once and for exactly
  \<open>CYCLES_PER_FRAME\<close> cycles, if and only if the state after the last command is \<open>Run\<close> (so
  not after a \<open>Pause\<close>); the queue is empty afterwards and \<open>gba_run\<close> goes on with the next
  iteration. If an \<open>Exit\<close> is in the queue, \<open>gba_run\<close> executes the commands before it, in
  the same order, and returns without running the scheduler.
\<close>

theorem gba_run_turn_drains_pushed_then_runs:
  assumes inv: "queue_length (mqueue s0) = length (messages (mqueue s0))"
  shows "let ms = messages (mqueue s0) @ pushed;
             g = fst (execute_in_order ext ms (machine s0));
             effects = snd (execute_in_order ext ms (machine s0));
             locks = concat (replicate (length pushed) [Mutex_lock, Mutex_unlock]);
             s' = \<lparr>machine = (if state g = GBA_STATE_RUN
                              then sched_run_for ext CYCLES_PER_FRAME g else g),
                   mqueue = \<lparr>messages = [], queue_length = 0\<rparr>,
                   trace = trace s0 @ locks @ [Mutex_lock] @ effects
                             @ [Free_messages, Mutex_unlock]
                             @ (if state g = GBA_STATE_RUN
                                then [Sched_run_for CYCLES_PER_FRAME] else [])\<rparr>
         in (MESSAGE_EXIT \<notin> set ms \<longrightarrow>
               gba_run_iteration ext (fold gba_message_push pushed s0) = Continue s'
               \<and> gba_run ext (pushed # later) s0 = gba_run ext later s')
          \<and> (MESSAGE_EXIT \<in> set ms \<longrightarrow>
               (\<exists>r. gba_run ext (pushed # later) s0 = Some (Returned r) \<and> machine r = g
                   \<and> trace r = trace s0 @ locks @ [Mutex_lock] @ effects @ [Mutex_unlock]))"
proof -
  let ?s = "fold gba_message_push pushed s0"
  let ?ms = "messages (mqueue s0) @ pushed"
  let ?g = "fst (execute_in_order ext ?ms (machine s0))"
  let ?effects = "snd (execute_in_order ext ?ms (machine s0))"
  let ?locks = "concat (replicate (length pushed) [Mutex_lock, Mutex_unlock])"
  let ?s' = "\<lparr>machine = (if state ?g = GBA_STATE_RUN
                              then sched_run_for ext CYCLES_PER_FRAME ?g else ?g),
                   mqueue = \<lparr>messages = [], queue_length = 0\<rparr>,
                   trace = trace s0 @ ?locks @ [Mutex_lock] @ ?effects
                             @ [Free_messages, Mutex_unlock]
                             @ (if state ?g = GBA_STATE_RUN
                                then [Sched_run_for CYCLES_PER_FRAME] else [])\<rparr>"
  have m: "machine ?s = machine s0" by (simp add: fold_gba_message_push)
  have ms: "messages (mqueue ?s) = ?ms" by (simp add: fold_gba_message_push)
  have tr: "trace ?s = trace s0 @ ?locks" by (simp add: fold_gba_message_push)
  have inv': "queue_length (mqueue ?s) = length (messages (mqueue ?s))"
    by (simp add: fold_gba_message_push inv)
  note t = turn_from_invariant [OF inv', of ext, unfolded Let_def m ms tr]
  have a: "gba_run_iteration ext ?s = Continue ?s' \<and> gba_run ext (pushed # later) s0 = gba_run ext later ?s'"
    if "MESSAGE_EXIT \<notin> set ?ms"
  proof -
    from t that have i: "gba_run_iteration ext ?s = Continue ?s'" by simp
    then have "gba_run ext (pushed # later) s0 = gba_run ext later ?s'" by simp
    with i show ?thesis ..
  qed
  have b: "\<exists>r. gba_run ext (pushed # later) s0 = Some (Returned r) \<and> machine r = ?g
                   \<and> trace r = trace s0 @ ?locks @ [Mutex_lock] @ ?effects @ [Mutex_unlock]"
    if "MESSAGE_EXIT \<in> set ?ms"
  proof -
    from t that obtain r where
      r: "gba_run_iteration ext ?s = Returned r" and
      r': "machine r = ?g \<and> trace r = trace s0 @ ?locks @ [Mutex_lock] @ ?effects @ [Mutex_unlock]"
      by auto
    from r have "gba_run ext (pushed # later) s0 = Some (Returned r)" by simp
    with r' show ?thesis by blast
  qed
  from a b show ?thesis unfolding Let_def by blast
qed

theorem gba_run_turn_drains_pushed_then_runs_witness:
  "queue_length (mqueue example_run_state) = length (messages (mqueue example_run_state))
   \<and> gba_run_iteration example_externals
       (fold gba_message_push [MESSAGE_KEYINPUT KEY_A True, MESSAGE_RUN 2] example_run_state)
     = Continue
         \<lparr>machine = example_gba
            \<lparr>started := True, state := GBA_STATE_RUN, speed := 2,
             io_keyinput := example_keyinput\<lparr>keyinput_a := False\<rparr>, hw := 280896\<rparr>,
          mqueue = \<lparr>messages = [], queue_length = 0\<rparr>,
          trace = [Mutex_lock, Mutex_unlock, Mutex_lock, Mutex_unlock,
                   Mutex_lock, Free_messages, Mutex_unlock, Sched_run_for 280896]\<rparr>
   \<and> gba_run_iteration example_externals
       (fold gba_message_push [MESSAGE_RUN 2, MESSAGE_PAUSE] example_run_state)
     = Continue
         \<lparr>machine = example_gba\<lparr>started := True, state := GBA_STATE_PAUSE, speed := 2\<rparr>,
          mqueue = \<lparr>messages = [], queue_length = 0\<rparr>,
          trace = [Mutex_lock, Mutex_unlock, Mutex_lock, Mutex_unlock,
                   Mutex_lock, Free_messages, Mutex_unlock]\<rparr>
   \<and> (\<exists>r. gba_run example_externals [[MESSAGE_RUN 2, MESSAGE_EXIT, MESSAGE_PAUSE]]
              example_run_state = Some (Returned r)
        \<and> machine r = example_gba\<lparr>started := True, state := GBA_STATE_RUN, speed := 2\<rparr>
        \<and> trace r = [Mutex_lock, Mutex_unlock, Mutex_lock, Mutex_unlock, Mutex_lock,
                       Mutex_unlock, Mutex_lock, Mutex_unlock])"
proof -
  have inv: "queue_length (mqueue example_run_state)
               = length (messages (mqueue example_run_state))"
    by (simp add: example_run_state_def)
  have a: "gba_run_iteration example_externals
       (fold gba_message_push [MESSAGE_KEYINPUT KEY_A True, MESSAGE_RUN 2] example_run_state)
     = Continue
         \<lparr>machine = example_gba
            \<lparr>started := True, state := GBA_STATE_RUN, speed := 2,
             io_keyinput := example_keyinput\<lparr>keyinput_a := False\<rparr>, hw := 280896\<rparr>,
          mqueue = \<lparr>messages = [], queue_length = 0\<rparr>,
          trace = [Mutex_lock, Mutex_unlock, Mutex_lock, Mutex_unlock,
                   Mutex_lock, Free_messages, Mutex_unlock, Sched_run_for 280896]\<rparr>"
    using gba_run_turn_drains_pushed_then_runs
            [OF inv, of "[MESSAGE_KEYINPUT KEY_A True, MESSAGE_RUN 2]" example_externals "[]"]
    by (simp add: Let_def example_run_state_def example_gba_def example_externals_def
          set_keyinput_def CYCLES_PER_FRAME_def)
  have b: "gba_run_iteration example_externals
       (fold gba_message_push [MESSAGE_RUN 2, MESSAGE_PAUSE] example_run_state)
     = Continue
         \<lparr>machine = example_gba\<lparr>started := True, state := GBA_STATE_PAUSE, speed := 2\<rparr>,
          mqueue = \<lparr>messages = [], queue_length = 0\<rparr>,
          trace = [Mutex_lock, Mutex_unlock, Mutex_lock, Mutex_unlock,
                   Mutex_lock, Free_messages, Mutex_unlock]\<rparr>"
    using gba_run_turn_drains_pushed_then_runs
            [OF inv, of "[MESSAGE_RUN 2, MESSAGE_PAUSE]" example_externals "[]"]
    by (simp add: Let_def example_run_state_def example_externals_def)
  have c: "\<exists>r. gba_run example_externals [[MESSAGE_RUN 2, MESSAGE_EXIT, MESSAGE_PAUSE]]
              example_run_state = Some (Returned r)
        \<and> machine r = example_gba\<lparr>started := True, state := GBA_STATE_RUN, speed := 2\<rparr>
        \<and> trace r = [Mutex_lock, Mutex_unlock, Mutex_lock, Mutex_unlock, Mutex_lock,
                       Mutex_unlock, Mutex_lock, Mutex_unlock]"
    using gba_run_turn_drains_pushed_then_runs
            [OF inv, of "[MESSAGE_RUN 2, MESSAGE_EXIT, MESSAGE_PAUSE]" example_externals "[]"]
    by (simp add: Let_def example_run_state_def example_externals_def)
  from inv a b c show ?thesis by (intro conjI)
qed

subsection \<open>Exit\<close>

text \<open>
  C9. When the queue holds the messages \<open>before\<close>, then \<open>MESSAGE_EXIT\<close>, then the messages
  \<open>after\<close>, the turn returns from \<open>gba_run\<close> at the \<open>Exit\<close>: the state is the one the
  messages \<open>before\<close> have produced, the only cleanup callbacks called are theirs, the
  buffer is not freed (it still holds all the records, of which \<open>Exit\<close> and the ones after
  it are still counted as to process), and the mutex is unlocked. \<open>gba_run\<close> returns this
  result whatever would have been pushed later.
\<close>

theorem exit_returns_before_the_rest:
  assumes inv: "queue_length (mqueue s) = length (messages (mqueue s))"
      and ms: "messages (mqueue s) = before @ MESSAGE_EXIT # after"
      and nb: "MESSAGE_EXIT \<notin> set before"
  shows "gba_run_iteration ext s =
           Returned
             \<lparr>machine = fst (execute_in_order ext before (machine s)),
              mqueue = \<lparr>messages = before @ MESSAGE_EXIT # after,
                        queue_length = Suc (length after)\<rparr>,
              trace = trace s @ [Mutex_lock] @ concat (map cleanup_of before) @ [Mutex_unlock]\<rparr>
       \<and> Free_messages \<notin> set ([Mutex_lock] @ concat (map cleanup_of before) @ [Mutex_unlock])
       \<and> (\<forall>s0 pushed later.
             fold gba_message_push pushed s0 = s \<longrightarrow>
             gba_run ext (pushed # later) s0 = Some (gba_run_iteration ext s))"
proof -
  let ?s = "s\<lparr>trace := trace s @ [Mutex_lock]\<rparr>"
  have "queue_length (mqueue ?s) = length before + Suc (length after)"
    using inv ms by simp
  from drain_exit [OF this nb, of ext after] ms
  have r: "gba_run_iteration ext s =
           Returned
             \<lparr>machine = fst (execute_in_order ext before (machine s)),
              mqueue = \<lparr>messages = before @ MESSAGE_EXIT # after,
                        queue_length = Suc (length after)\<rparr>,
              trace = trace s @ [Mutex_lock] @ concat (map cleanup_of before) @ [Mutex_unlock]\<rparr>"
    by (simp add: gba_run_iteration_def Let_def execute_in_order_effects [OF nb])
  have "Free_messages \<notin> set (cleanup_of m)" for m
    by (cases m) (simp_all add: cleanup_of_def call_cleanup_def)
  then have f: "Free_messages \<notin> set ([Mutex_lock] @ concat (map cleanup_of before) @ [Mutex_unlock])"
    by simp
  have g: "\<forall>s0 pushed later.
             fold gba_message_push pushed s0 = s \<longrightarrow>
             gba_run ext (pushed # later) s0 = Some (gba_run_iteration ext s)"
    by (simp add: r)
  from r f g show ?thesis by (intro conjI)
qed

theorem exit_returns_before_the_rest_witness:
  "gba_run example_externals
     [[MESSAGE_QUICKSAVE \<lparr>data = [0x61], cleanup = True\<rparr>, MESSAGE_RUN 1, MESSAGE_EXIT,
       MESSAGE_LOAD_BIOS \<lparr>data = [1, 2], cleanup = True\<rparr>, MESSAGE_PAUSE]]
     example_run_state
   = Some (Returned
       \<lparr>machine = example_gba\<lparr>started := True, state := GBA_STATE_RUN, speed := 1\<rparr>,
        mqueue = \<lparr>messages = [MESSAGE_QUICKSAVE \<lparr>data = [0x61], cleanup = True\<rparr>, MESSAGE_RUN 1,
                               MESSAGE_EXIT, MESSAGE_LOAD_BIOS \<lparr>data = [1, 2], cleanup = True\<rparr>,
                               MESSAGE_PAUSE],
                  queue_length = 3\<rparr>,
        trace = [Mutex_lock, Mutex_unlock, Mutex_lock, Mutex_unlock, Mutex_lock, Mutex_unlock,
                 Mutex_lock, Mutex_unlock, Mutex_lock, Mutex_unlock,
                 Mutex_lock, Cleanup [0x61], Mutex_unlock]\<rparr>)"
proof -
  let ?before = "[MESSAGE_QUICKSAVE \<lparr>data = [0x61], cleanup = True\<rparr>, MESSAGE_RUN 1]"
  let ?after = "[MESSAGE_LOAD_BIOS \<lparr>data = [1, 2], cleanup = True\<rparr>, MESSAGE_PAUSE]"
  let ?pushed = "[MESSAGE_QUICKSAVE \<lparr>data = [0x61], cleanup = True\<rparr>, MESSAGE_RUN 1, MESSAGE_EXIT,
                  MESSAGE_LOAD_BIOS \<lparr>data = [1, 2], cleanup = True\<rparr>, MESSAGE_PAUSE]"
  let ?s = "\<lparr>machine = example_gba,
            mqueue = \<lparr>messages = ?pushed, queue_length = 5\<rparr>,
            trace = [Mutex_lock, Mutex_unlock, Mutex_lock, Mutex_unlock, Mutex_lock, Mutex_unlock,
                     Mutex_lock, Mutex_unlock, Mutex_lock, Mutex_unlock]\<rparr>"
  have st: "fold gba_message_push ?pushed example_run_state = ?s"
    by (simp add: gba_message_push_def example_run_state_def)
  have inv: "queue_length (mqueue ?s) = length (messages (mqueue ?s))"
    by simp
  have ms: "messages (mqueue ?s) = ?before @ MESSAGE_EXIT # ?after"
    by simp
  have nb: "MESSAGE_EXIT \<notin> set ?before" by simp
  have m: "machine ?s = example_gba" by simp
  have tr: "trace ?s = [Mutex_lock, Mutex_unlock, Mutex_lock, Mutex_unlock, Mutex_lock,
                        Mutex_unlock, Mutex_lock, Mutex_unlock, Mutex_lock, Mutex_unlock]"
    by simp
  have ex: "execute_in_order example_externals ?before example_gba
              = (example_gba\<lparr>started := True, state := GBA_STATE_RUN, speed := 1\<rparr>, [Cleanup [0x61]])"
    by (simp add: example_externals_def call_cleanup_def)
  have cl: "concat (map cleanup_of ?before) = [Cleanup [0x61]]"
    by (simp add: cleanup_of_def call_cleanup_def)
  note t = exit_returns_before_the_rest [OF inv ms nb, of example_externals]
  note it = t [THEN conjunct1]
  note run = t [THEN conjunct2, THEN conjunct2, rule_format, OF st, of "[]"]
  show ?thesis
    unfolding run it m tr ex cl by simp
qed

subsection \<open>Key input\<close>

text \<open>
  C8. For each of the ten keys and each value of \<open>pressed\<close>, the case for \<open>KeyInput\<close>
  stores the negation of \<open>pressed\<close> in the bit of KEYINPUT that belongs to the key and
  leaves the other nine bits as they are; \<open>io_scan_keypad_irq\<close> is then called on that
  state. Where this function, defined outside gba.c, does not write KEYINPUT, the
  same holds of the state after the command.
\<close>

theorem keyinput_is_active_low:
  "process_message ext (MESSAGE_KEYINPUT key pressed) g =
     Some (io_scan_keypad_irq ext
             (g\<lparr>io_keyinput := set_keyinput key (\<not> pressed) (io_keyinput g)\<rparr>), [])
   \<and> key_bit key (set_keyinput key (\<not> pressed) (io_keyinput g)) = (\<not> pressed)
   \<and> (\<forall>other. other \<noteq> key \<longrightarrow>
          key_bit other (set_keyinput key (\<not> pressed) (io_keyinput g))
            = key_bit other (io_keyinput g))
   \<and> ((\<forall>x. io_keyinput (io_scan_keypad_irq ext x) = io_keyinput x) \<longrightarrow>
        (\<exists>g'. process_message ext (MESSAGE_KEYINPUT key pressed) g = Some (g', [])
            \<and> key_bit key (io_keyinput g') = (\<not> pressed)
            \<and> (\<forall>other. other \<noteq> key \<longrightarrow>
                   key_bit other (io_keyinput g') = key_bit other (io_keyinput g))))"
proof -
  have own: "key_bit key (set_keyinput key v k) = v" for v k
    by (cases key) (simp_all add: key_bit_def set_keyinput_def)
  have others: "key_bit other (set_keyinput key v k) = key_bit other k"
    if "other \<noteq> key" for other v k
    using that by (cases key; cases other) (simp_all add: key_bit_def set_keyinput_def)
  show ?thesis by (simp add: own others)
qed

theorem keyinput_is_active_low_witness:
  "(\<forall>x. io_keyinput (io_scan_keypad_irq example_externals x) = io_keyinput x)
   \<and> KEY_B \<noteq> KEY_A
   \<and> (\<exists>g'. process_message example_externals (MESSAGE_KEYINPUT KEY_A True) example_gba
              = Some (g', [])
          \<and> key_bit KEY_A (io_keyinput g') = False
          \<and> key_bit KEY_B (io_keyinput g') = key_bit KEY_B (io_keyinput example_gba)
          \<and> key_bit KEY_B (io_keyinput example_gba) = True)"
proof -
  have f: "\<forall>x. io_keyinput (io_scan_keypad_irq example_externals x) = io_keyinput x"
    by (simp add: example_externals_def)
  have n: "KEY_B \<noteq> KEY_A" by simp
  have b: "key_bit KEY_B (io_keyinput example_gba) = True"
    by (simp add: key_bit_def example_gba_def example_keyinput_def)
  from keyinput_is_active_low [of example_externals KEY_A True example_gba] f
  obtain g' where
    "process_message example_externals (MESSAGE_KEYINPUT KEY_A True) example_gba = Some (g', [])
     \<and> key_bit KEY_A (io_keyinput g') = (\<not> True)
     \<and> (\<forall>other. other \<noteq> KEY_A \<longrightarrow>
            key_bit other (io_keyinput g') = key_bit other (io_keyinput example_gba))"
    by blast
  with n have "process_message example_externals (MESSAGE_KEYINPUT KEY_A True) example_gba
              = Some (g', [])
          \<and> key_bit KEY_A (io_keyinput g') = False
          \<and> key_bit KEY_B (io_keyinput g') = key_bit KEY_B (io_keyinput example_gba)
          \<and> key_bit KEY_B (io_keyinput example_gba) = True"
    using b by simp
  then have "\<exists>g'. process_message example_externals (MESSAGE_KEYINPUT KEY_A True) example_gba
              = Some (g', [])
          \<and> key_bit KEY_A (io_keyinput g') = False
          \<and> key_bit KEY_B (io_keyinput g') = key_bit KEY_B (io_keyinput example_gba)
          \<and> key_bit KEY_B (io_keyinput example_gba) = True" ..
  with f n show ?thesis by (intro conjI)
qed

subsection \<open>Reset\<close>

text \<open>
  C10. \<open>gba_reset\<close> clears \<open>started\<close>, whatever the functions it calls before do, and the
  \<open>Reset\<close> command is \<open>gba_reset\<close>. A \<open>BackupType\<close> command processed next is therefore
  applied (detection for \<open>BACKUP_AUTO_DETECT\<close>, otherwise the type is stored with the source
  \<open>BACKUP_SOURCE_MANUAL\<close>; \<open>mem_backup_storage_init\<close> follows in both cases), and so is an
  \<open>Rtc\<close> command, also when emulation had started before the reset.
\<close>

theorem reset_clears_started:
  "\<not> started (gba_reset ext g)
   \<and> process_message ext MESSAGE_RESET g = Some (gba_reset ext g, [])
   \<and> process_message ext (MESSAGE_BACKUP_TYPE t) (gba_reset ext g) =
       Some (mem_backup_storage_init ext
               (if t = BACKUP_AUTO_DETECT then mem_backup_storage_detect ext (gba_reset ext g)
                else (gba_reset ext g)\<lparr>memory_backup_storage_type := t,
                                        memory_backup_storage_source := BACKUP_SOURCE_MANUAL\<rparr>),
             [])
   \<and> process_message ext (MESSAGE_RTC d) (gba_reset ext g) =
       Some ((gba_reset ext g)\<lparr>rtc_auto_detect := (d = DEVICE_AUTO_DETECT),
                               rtc_enabled := (d = DEVICE_ENABLED)\<rparr>, [])"
proof -
  have n: "\<not> started (gba_reset ext g)" by (simp add: gba_reset_def Let_def)
  have r: "process_message ext MESSAGE_RESET g = Some (gba_reset ext g, [])" by simp
  have b: "process_message ext (MESSAGE_BACKUP_TYPE t) (gba_reset ext g) =
       Some (mem_backup_storage_init ext
               (if t = BACKUP_AUTO_DETECT then mem_backup_storage_detect ext (gba_reset ext g)
                else (gba_reset ext g)\<lparr>memory_backup_storage_type := t,
                                        memory_backup_storage_source := BACKUP_SOURCE_MANUAL\<rparr>),
             [])"
    using n by simp
  have c: "process_message ext (MESSAGE_RTC d) (gba_reset ext g) =
       Some ((gba_reset ext g)\<lparr>rtc_auto_detect := (d = DEVICE_AUTO_DETECT),
                               rtc_enabled := (d = DEVICE_ENABLED)\<rparr>, [])"
    using n by (cases d) simp_all
  from n r b c show ?thesis by (intro conjI)
qed

end
